theory Spec2Isabelle
  imports Main "HOL-Library.Word"
begin

section \<open>Constants and configuration (dns-blast.go, lines 18-33 and 82-87)\<close>

definition DefaultDNSPort :: int where
  "DefaultDNSPort = 53"

definition DefaultDNSOverTLSPort :: int where
  "DefaultDNSOverTLSPort = 853"

definition UDPProtoName :: string where
  "UDPProtoName = ''udp''"

definition TCPProtoName :: string where
  "TCPProtoName = ''tcp''"

definition TCPTLSProtoName :: string where
  "TCPTLSProtoName = ''tcp-tls''"

text \<open>
  A Go \<open>error\<close> value is represented by its message; the \<open>nil\<close> error is \<open>None\<close>.
  \<open>time.Duration\<close> is a signed count of nanoseconds; no arithmetic is done on it in
  this file, so it is an \<open>int\<close>. \<open>ParallelQueries\<close> is a Go \<open>int\<close>, of 64 bits; the code
  compares it with the loop variable, which never exceeds it, and passes it to the
  wait group, which keeps its 32 low bits: it is an \<open>int\<close> as well.
\<close>

type_synonym error = string
type_synonym Duration = int

record Config =
  RootDomain :: string
  cfg_Protocol :: string
  cfg_SeedDomains :: "string list"
  cfg_Delay :: Duration
  cfg_ParallelQueries :: int

record StressTestParameters =
  Delay :: Duration
  ParallelQueries :: int
  Protocol :: string
  SeedDomains :: "string list"

section \<open>Nameserver resolution (getNameservers, lines 240-256)\<close>

text \<open>
  \<open>net.LookupNS\<close> is the system resolver; it is a parameter of the model. As in Go it
  returns a slice of records together with an error, and both may be present. An
  \<open>*net.NS\<close> record has the single field \<open>Host\<close>.
\<close>

record NS =
  Host :: string

type_synonym lookup = "string \<Rightarrow> NS list \<times> error option"

text \<open>\<open>strconv.Itoa\<close>: the decimal representation of an integer.\<close>

definition digit :: "nat \<Rightarrow> char" where
  "digit n = ''0123456789'' ! n"

fun digits :: "nat \<Rightarrow> string" where
  "digits n = (if n < 10 then [digit n] else digits (n div 10) @ [digit (n mod 10)])"

declare digits.simps [simp del]

definition Itoa :: "int \<Rightarrow> string" where
  "Itoa i = (if i < 0 then CHR ''-'' # digits (nat (- i)) else digits (nat i))"

text \<open>
  \<open>net.JoinHostPort\<close>: a host that contains a colon is taken for a literal IPv6 address
  and is put in square brackets.
\<close>

definition JoinHostPort :: "string \<Rightarrow> string \<Rightarrow> string" where
  "JoinHostPort host port =
     (if CHR '':'' \<in> set host then ''['' @ host @ '']:'' @ port else host @ '':'' @ port)"

definition getNameservers :: "lookup \<Rightarrow> string \<Rightarrow> string \<Rightarrow> string list \<times> error option" where
  "getNameservers LookupNS rootDomain protocol =
     (let port = (if protocol = TCPTLSProtoName then DefaultDNSOverTLSPort else DefaultDNSPort)
      in case LookupNS rootDomain of
           (nameservers, Some err) \<Rightarrow> ([], Some err)
         | (nameservers, None) \<Rightarrow>
             (map (\<lambda>nameserver. JoinHostPort (Host nameserver) (Itoa port)) nameservers, None))"

section \<open>The DNS client library and uTLS, as far as the code uses them\<close>

text \<open>
  \<open>github.com/miekg/dns\<close> and \<open>github.com/refraction-networking/utls\<close> are external
  libraries. They are modelled at the level of the calls the code makes: a network
  world that numbers the connections dialled so far and records what happens on
  each of them. What the network answers is a parameter (the environment \<open>env\<close>).
\<close>

record TLSConfig =
  InsecureSkipVerify :: bool

record Client =
  Net :: string
  Dialer_Timeout :: Duration
  DialTimeout :: Duration
  WriteTimeout :: Duration
  ReadTimeout :: Duration
  TLSConfig :: "TLSConfig option"

text \<open>
  The first message of the TLS handshake, if any: none, the ClientHello of Go's
  \<open>crypto/tls\<close>, or the randomized ClientHello that \<open>utls.HelloRandomized\<close> names.

  A \<open>*dns.Conn\<close> embeds the transport that \<open>Dial\<close> stored in its field \<open>Conn\<close> and passes
  the calls that it does not define itself (\<open>Close\<close>, the deadlines) on to it.
  \<open>conn_hello\<close> is the ClientHello with which that transport was set up;
  \<open>self_wrapped\<close> tells that the field \<open>Conn\<close> has been overwritten with a uTLS client
  built over the \<open>*dns.Conn\<close> itself (see \<open>UClient\<close> below).
\<close>

datatype hello = NoTLS | HelloStandard | HelloRandomized

record Conn =
  conn_no :: nat
  conn_hello :: hello
  self_wrapped :: bool

text \<open>A failure that ends the process; no deferred handler can recover it.\<close>

datatype fatal = StackOverflow

datatype Msg = SetQuestion string "16 word"

definition TypeA :: "16 word" where
  "TypeA = 1"

record QueryParameters =
  HostAndPort :: string
  QName :: string
  QType :: "16 word"

record Response =
  WithErr :: bool
  Err :: "error option"
  Latency :: Duration

datatype logmsg =
    LogIgniting Config
  | LogResolved string "string list"
  | LogFinishedWithError string StressTestParameters error
  | LogStillBlasting string
  | LogCanceled
  | LogDialFailed string error
  | LogQueryFailed error

datatype event =
    Log logmsg
  | Dialed string nat
  | DialFailed string error
  | Upgraded nat hello
  | Exchanged nat hello Msg "error option"
  | Closed nat
  | CloseFailed nat
  | Recovered string
  | TickerStopped
  | GeneratorCancelled

record world =
  dials :: nat
  trace :: "event list"

definition emit :: "event list \<Rightarrow> world \<Rightarrow> world" where
  "emit es w = w\<lparr>trace := trace w @ es\<rparr>"

text \<open>
  The environment of a worker: the library function \<open>dns.Fqdn\<close>, the outcome of the
  n-th dial, the round-trip time and error of the exchange on connection n, the
  result of bootstrapping the name generator, the k-th name it sends on its channel
  (\<open>None\<close>: the channel is closed), and the branch that \<open>select\<close> takes in round k when
  both of its channels are ready (\<open>True\<close>: the ticker).

  \<open>NewDistinctHeavyHitterGenerator\<close> is a function of this package that is not under
  src/; no property of the names it generates is used, so it is a parameter.
\<close>

record env =
  Fqdn :: "string \<Rightarrow> string"
  dial_result :: "nat \<Rightarrow> error option"
  exchange_result :: "nat \<Rightarrow> Duration \<times> error option"
  gen_bootstrap :: "string list \<Rightarrow> error option"
  gen_next :: "nat \<Rightarrow> string option"
  select_tick :: "nat \<Rightarrow> bool"

text \<open>\<open>Client.Dial\<close> uses TLS for the networks tcp-tls, tcp4-tls and tcp6-tls.\<close>

definition useTLS :: "string \<Rightarrow> bool" where
  "useTLS network = (network = ''tcp-tls'' \<or> network = ''tcp4-tls'' \<or> network = ''tcp6-tls'')"

definition Dial :: "env \<Rightarrow> Client \<Rightarrow> string \<Rightarrow> world \<Rightarrow> (error + Conn) \<times> world" where
  "Dial e c address w =
     (case dial_result e (dials w) of
        Some err \<Rightarrow> (Inl err, emit [DialFailed address err] (w\<lparr>dials := dials w + 1\<rparr>))
      | None \<Rightarrow>
          (Inr \<lparr>conn_no = dials w,
                conn_hello = (if useTLS (Net c) then HelloStandard else NoTLS),
                self_wrapped = False\<rparr>,
           emit [Dialed address (dials w)] (w\<lparr>dials := dials w + 1\<rparr>)))"

text \<open>
  The statement \<open>co.Conn = utls.UClient(co, config, h)\<close> of lines 179 and 203. The
  uTLS client is built over \<open>co\<close>, not over the transport that \<open>co\<close> holds, and is then
  stored as the transport of \<open>co\<close>: from here on every call that \<open>co\<close> passes on to its
  transport comes back to \<open>co\<close>, and the dialled connection is out of reach. No
  handshake with the ClientHello \<open>h\<close> takes place.
\<close>

definition UClient :: "Conn \<Rightarrow> hello \<Rightarrow> world \<Rightarrow> Conn \<times> world" where
  "UClient co h w = (co\<lparr>self_wrapped := True\<rparr>, emit [Upgraded (conn_no co) h] w)"

text \<open>
  \<open>co.Close()\<close> closes the transport of \<open>co\<close>. On a connection that wraps itself the
  call comes back to the uTLS client, which is closing already and returns an
  error: nothing is closed, and the dialled connection stays open.
\<close>

definition Close :: "Conn \<Rightarrow> world \<Rightarrow> world" where
  "Close co w =
     (if self_wrapped co then emit [CloseFailed (conn_no co)] w
      else emit [Closed (conn_no co)] w)"

text \<open>One exchange on a connection as \<open>Dial\<close> returns it.\<close>

definition exchange_on ::
  "env \<Rightarrow> Msg \<Rightarrow> Conn \<Rightarrow> world \<Rightarrow> (Duration \<times> error option) \<times> world" where
  "exchange_on e m co w =
     (exchange_result e (conn_no co),
      emit [Exchanged (conn_no co) (conn_hello co) m (snd (exchange_result e (conn_no co)))] w)"

text \<open>
  \<open>Client.ExchangeWithConn(m, co)\<close>: the exchange on the connection it is given. It
  sets the deadlines of \<open>co\<close> and writes to it, calls that \<open>co\<close> passes on to its
  transport; on a connection that wraps itself the first of them recurses until
  the stack overflows.
\<close>

definition ExchangeWithConn ::
  "env \<Rightarrow> Client \<Rightarrow> Msg \<Rightarrow> Conn \<Rightarrow> world \<Rightarrow> fatal + (Duration \<times> error option) \<times> world" where
  "ExchangeWithConn e c m co w =
     (if self_wrapped co then Inl StackOverflow else Inr (exchange_on e m co w))"

text \<open>
  \<open>Client.Exchange(m, address)\<close>: dials a connection of its own to the address,
  exchanges on it by \<open>ExchangeWithConn\<close> and closes it. That connection is as \<open>Dial\<close>
  returns it, so the exchange is the one of \<open>exchange_on\<close>.
\<close>

definition Exchange ::
  "env \<Rightarrow> Client \<Rightarrow> Msg \<Rightarrow> string \<Rightarrow> world \<Rightarrow> (Duration \<times> error option) \<times> world" where
  "Exchange e c m address w =
     (case Dial e c address w of
        (Inl err, w1) \<Rightarrow> ((0, Some err), w1)
      | (Inr co, w1) \<Rightarrow>
          (case exchange_on e m co w1 of (r, w2) \<Rightarrow> (r, Close co w2)))"

section \<open>The transport factory (newDefaultDNSClient, lines 214-238)\<close>

definition dialTimeout :: Duration where
  "dialTimeout = 1 * 1000000000"

definition writeTimeout :: Duration where
  "writeTimeout = 500 * 1000000"

definition readTimeout :: Duration where
  "readTimeout = 300 * 1000000"

definition newDefaultDNSClient :: "string \<Rightarrow> Client" where
  "newDefaultDNSClient proto =
     (let c = \<lparr>Net = proto, Dialer_Timeout = dialTimeout, DialTimeout = dialTimeout,
                WriteTimeout = writeTimeout, ReadTimeout = readTimeout, TLSConfig = None\<rparr>
      in if Net c = TCPTLSProtoName
         then c\<lparr>TLSConfig := Some \<lparr>InsecureSkipVerify = True\<rparr>\<rparr>
         else c)"

section \<open>The query executor (SimpleQuery, lines 165-189; SimpleQueryWithNoResponse, lines 191-212)\<close>

text \<open>
  \<open>SimpleQuery\<close> returns a \<open>Response\<close>, unless the process ends in it. The deferred
  \<open>co.Close()\<close> runs when the function returns.
\<close>

definition SimpleQuery ::
  "env \<Rightarrow> Client \<Rightarrow> QueryParameters \<Rightarrow> world \<Rightarrow> fatal + Response \<times> world" where
  "SimpleQuery e sharedDNSClient parameters w =
     (let question = SetQuestion (Fqdn e (QName parameters)) (QType parameters)
      in case Dial e sharedDNSClient (HostAndPort parameters) w of
           (Inl err, w1) \<Rightarrow> Inr (\<lparr>WithErr = True, Err = Some err, Latency = 0\<rparr>, w1)
         | (Inr co, w1) \<Rightarrow>
             (case (if Net sharedDNSClient = TCPTLSProtoName
                    then UClient co HelloRandomized w1 else (co, w1)) of
                (co', w2) \<Rightarrow>
                  (case ExchangeWithConn e sharedDNSClient question co' w2 of
                     Inl crash \<Rightarrow> Inl crash
                   | Inr ((rtt, err), w3) \<Rightarrow>
                       Inr (\<lparr>WithErr = (err \<noteq> None), Err = err, Latency = rtt\<rparr>,
                            Close co' w3))))"

definition SimpleQueryWithNoResponse :: "env \<Rightarrow> Client \<Rightarrow> QueryParameters \<Rightarrow> world \<Rightarrow> world" where
  "SimpleQueryWithNoResponse e sharedDNSClient parameters w =
     (let question = SetQuestion (Fqdn e (QName parameters)) (QType parameters)
      in case Dial e sharedDNSClient (HostAndPort parameters) w of
           (Inl err, w1) \<Rightarrow> emit [Log (LogDialFailed (HostAndPort parameters) err)] w1
         | (Inr co, w1) \<Rightarrow>
             (case (if Net sharedDNSClient = TCPTLSProtoName
                    then UClient co HelloRandomized w1 else (co, w1)) of
                (co', w2) \<Rightarrow>
                  (case Exchange e sharedDNSClient question (HostAndPort parameters) w2 of
                     ((rtt, err), w3) \<Rightarrow>
                       (case err of
                          Some x \<Rightarrow> Close co' (emit [Log (LogQueryFailed x)] w3)
                        | None \<Rightarrow> Close co' w3))))"

section \<open>Panic recovery\<close>

text \<open>
  Modelled from the spec: \<open>utils.PanicHandler\<close> is not under src/. The spec describes
  it as the supervised-task facility that "wraps every concurrent task boundary,
  catches unexpected failures, logs them, and allows sibling tasks/the process to
  continue". A function that has deferred it and panics therefore returns to its
  caller with the zero values of its results, after its other deferred calls and
  the log of the recovered panic.
\<close>

definition PanicHandler :: "string \<Rightarrow> world \<Rightarrow> world" where
  "PanicHandler panic w = emit [Recovered panic] w"

text \<open>The panic of a \<open>nil\<close> pointer that is dereferenced.\<close>

definition nil_dereference :: string where
  "nil_dereference = ''runtime error: invalid memory address or nil pointer dereference''"

section \<open>The stress test executor (ExecuteStressTest, lines 89-151)\<close>

text \<open>
  A worker is the goroutine that \<open>Start\<close> spawns for one nameserver (lines 63-72).
  It runs concurrently with the query goroutines it spawns, with the cancellation
  of the context and with the ticker, so it is modelled as a transition system:
  a scheduler label selects who moves next, and a schedule is a list of labels.
  A move of a blocked goroutine leaves the state as it is.

  Program points of the worker:
  \<^item> \<open>InitVars\<close>: the \<open>var\<close> block, lines 92-103;
  \<^item> \<open>Bootstrap\<close>: lines 104-112;
  \<^item> \<open>GenerateName\<close>: the head of the loop, line 115, which receives the next name
    from the generator's channel and stores it in \<open>reusableQuery.QName\<close>;
  \<^item> \<open>KeepAlive\<close>: lines 116-121;
  \<^item> \<open>CheckCancel\<close>: the first \<open>select\<close>, lines 123-129;
  \<^item> \<open>AddGroup\<close>: line 131;
  \<^item> \<open>Spawn i\<close>: the \<open>for\<close> loop of lines 132-138 with its variable at \<open>i\<close>;
  \<^item> \<open>Await\<close>: line 139;
  \<^item> \<open>Pace\<close>: the second \<open>select\<close>, lines 141-147;
  \<^item> \<open>Returned r\<close>: \<open>ExecuteStressTest\<close> has returned \<open>r\<close> to lines 66-71;
  \<^item> \<open>Exited\<close>: the goroutine has ended.

  Program points of a query goroutine (lines 133-137): \<open>TQuery\<close> before the call of
  \<open>SimpleQueryWithNoResponse\<close>, \<open>TDone\<close> before \<open>awaitGroup.Done()\<close>, \<open>TExit\<close> at its end.
\<close>

datatype pc =
    InitVars | Bootstrap | GenerateName | KeepAlive | CheckCancel | AddGroup
  | Spawn int | Await | Pace | Returned "error option" | Exited

datatype tpc = TQuery | TDone | TExit

text \<open>
  A query goroutine is a closure over the variables \<open>sharedDNSClient\<close> and
  \<open>reusableQuery\<close>; the latter is a pointer, kept as the address \<open>t_params\<close>.
  \<open>t_round\<close> is the round in which the goroutine was spawned.
\<close>

record task =
  t_round :: nat
  t_params :: nat
  t_pc :: tpc

text \<open>
  The state: the heap of \<open>QueryParameters\<close> objects, the local variables of
  \<open>ExecuteStressTest\<close>, the number of names received from the generator so far (the
  number of the current round), the query goroutines spawned so far, whether
  \<open>ctx.Done()\<close> is closed, whether a tick is waiting in the one-slot channel
  \<open>nextLoopTicker.C\<close>, and the network world with the log. The object that line 94
  allocates gets the address 1; nothing is ever stored at the address 0, the \<open>nil\<close>
  pointer. A receive from the generator's channel is answered at once, by the next
  name or by the closed channel: a generator that is slow only delays the move of
  the worker, and one that never answers is not modelled.
\<close>

record state =
  pc :: pc
  heap :: "nat \<rightharpoonup> QueryParameters"
  reusableQuery :: nat
  awaitGroup :: "32 word"
  keepAliveCounter :: int
  names :: nat
  tasks :: "task list"
  ctx_done :: bool
  ticker_C :: bool
  world :: world

text \<open>
  The counter of a \<open>sync.WaitGroup\<close> has 32 bits. \<open>Add(delta)\<close> adds \<open>delta\<close> to it,
  wrapping around, and panics when the result, read as a signed number, is
  negative; \<open>Done()\<close> is \<open>Add(-1)\<close>; \<open>Wait()\<close> returns when the counter is zero.
\<close>

definition wg_Add :: "32 word \<Rightarrow> int \<Rightarrow> 32 word" where
  "wg_Add counter delta = counter + word_of_int delta"

definition keepAliveReminder :: int where
  "keepAliveReminder = 256"

definition init :: state where
  "init = \<lparr>pc = InitVars, heap = Map.empty, reusableQuery = 0, awaitGroup = 0,
            keepAliveCounter = 0, names = 0, tasks = [], ctx_done = False,
            ticker_C = False, world = \<lparr>dials = 0, trace = []\<rparr>\<rparr>"

definition sharedDNSClient :: "StressTestParameters \<Rightarrow> Client" where
  "sharedDNSClient parameters = newDefaultDNSClient (Protocol parameters)"

text \<open>Leaving the loop: the deferred calls of lines 112 and 111 run, in this order.\<close>

definition leave :: "event list \<Rightarrow> state \<Rightarrow> state" where
  "leave es s = s\<lparr>pc := Returned None,
                  world := emit (es @ [TickerStopped, GeneratorCancelled]) (world s)\<rparr>"

text \<open>A panic inside the loop: the deferred calls run, the last one recovers.\<close>

definition panic_in_loop :: "string \<Rightarrow> state \<Rightarrow> state" where
  "panic_in_loop msg s =
     s\<lparr>pc := Returned None,
       world := PanicHandler msg (emit [TickerStopped, GeneratorCancelled] (world s))\<rparr>"

definition worker_step :: "env \<Rightarrow> string \<Rightarrow> StressTestParameters \<Rightarrow> state \<Rightarrow> state" where
  "worker_step e nameserver parameters s =
     (case pc s of
        InitVars \<Rightarrow>
          if Delay parameters \<le> 0
          then s\<lparr>pc := Returned None,
                 world := PanicHandler ''non-positive interval for NewTicker'' (world s)\<rparr>
          else s\<lparr>pc := Bootstrap,
                 heap := (heap s)(1 \<mapsto> \<lparr>HostAndPort = nameserver, QName = [], QType = TypeA\<rparr>),
                 reusableQuery := 1, awaitGroup := 0, keepAliveCounter := 0,
                 ticker_C := False\<rparr>
      | Bootstrap \<Rightarrow>
          (case gen_bootstrap e (SeedDomains parameters) of
             Some err \<Rightarrow>
               s\<lparr>pc := Returned
                    (Some (''failed to bootstrap the distinct heavy hitter generator: '' @ err))\<rparr>
           | None \<Rightarrow> s\<lparr>pc := GenerateName\<rparr>)
      | GenerateName \<Rightarrow>
          (case gen_next e (names s) of
             None \<Rightarrow> leave [] s
           | Some name \<Rightarrow>
               (case heap s (reusableQuery s) of
                  None \<Rightarrow> panic_in_loop nil_dereference s
                | Some q \<Rightarrow>
                    s\<lparr>pc := KeepAlive, names := names s + 1,
                      heap := (heap s)(reusableQuery s \<mapsto> q\<lparr>QName := name\<rparr>)\<rparr>))
      | KeepAlive \<Rightarrow>
          if keepAliveCounter s = keepAliveReminder
          then (case heap s (reusableQuery s) of
                  None \<Rightarrow> panic_in_loop nil_dereference s
                | Some q \<Rightarrow>
                    s\<lparr>pc := CheckCancel, keepAliveCounter := 0,
                      world := emit [Log (LogStillBlasting (HostAndPort q))] (world s)\<rparr>)
          else s\<lparr>pc := CheckCancel, keepAliveCounter := keepAliveCounter s + 1\<rparr>
      | CheckCancel \<Rightarrow>
          if ctx_done s then leave [Log LogCanceled] s else s\<lparr>pc := AddGroup\<rparr>
      | AddGroup \<Rightarrow>
          if sint (wg_Add (awaitGroup s) (ParallelQueries parameters)) < 0
          then panic_in_loop ''sync: negative WaitGroup counter''
                 (s\<lparr>awaitGroup := wg_Add (awaitGroup s) (ParallelQueries parameters)\<rparr>)
          else s\<lparr>pc := Spawn 0,
                 awaitGroup := wg_Add (awaitGroup s) (ParallelQueries parameters)\<rparr>
      | Spawn i \<Rightarrow>
          if i < ParallelQueries parameters
          then s\<lparr>pc := Spawn (i + 1),
                 tasks := tasks s @
                   [\<lparr>t_round = names s, t_params = reusableQuery s, t_pc = TQuery\<rparr>]\<rparr>
          else s\<lparr>pc := Await\<rparr>
      | Await \<Rightarrow> if awaitGroup s = 0 then s\<lparr>pc := Pace\<rparr> else s
      | Pace \<Rightarrow>
          if ctx_done s \<and> \<not> (ticker_C s \<and> select_tick e (names s))
          then leave [Log LogCanceled] s
          else if ticker_C s then s\<lparr>pc := GenerateName, ticker_C := False\<rparr>
          else s
      | Returned r \<Rightarrow>
          (case r of
             Some err \<Rightarrow>
               s\<lparr>pc := Exited,
                 world := emit [Log (LogFinishedWithError nameserver parameters err)] (world s)\<rparr>
           | None \<Rightarrow> s\<lparr>pc := Exited\<rparr>)
      | Exited \<Rightarrow> s)"

text \<open>
  The query goroutine of lines 133-137. It has deferred the panic handler, so a
  panic ends it without the call of \<open>awaitGroup.Done()\<close>. \<open>Done\<close> panics when it
  has made the counter negative.
\<close>

definition task_step :: "env \<Rightarrow> StressTestParameters \<Rightarrow> nat \<Rightarrow> state \<Rightarrow> state" where
  "task_step e parameters k s =
     (if k < length (tasks s)
      then
        (case t_pc (tasks s ! k) of
           TQuery \<Rightarrow>
             (case heap s (t_params (tasks s ! k)) of
                None \<Rightarrow>
                  s\<lparr>tasks := (tasks s)[k := (tasks s ! k)\<lparr>t_pc := TExit\<rparr>],
                    world := PanicHandler nil_dereference (world s)\<rparr>
              | Some q \<Rightarrow>
                  s\<lparr>tasks := (tasks s)[k := (tasks s ! k)\<lparr>t_pc := TDone\<rparr>],
                    world := SimpleQueryWithNoResponse e (sharedDNSClient parameters) q (world s)\<rparr>)
         | TDone \<Rightarrow>
             if sint (wg_Add (awaitGroup s) (- 1)) < 0
             then s\<lparr>tasks := (tasks s)[k := (tasks s ! k)\<lparr>t_pc := TExit\<rparr>],
                    awaitGroup := wg_Add (awaitGroup s) (- 1),
                    world := PanicHandler ''sync: negative WaitGroup counter'' (world s)\<rparr>
             else s\<lparr>tasks := (tasks s)[k := (tasks s ! k)\<lparr>t_pc := TExit\<rparr>],
                    awaitGroup := wg_Add (awaitGroup s) (- 1)\<rparr>
         | TExit \<Rightarrow> s)
      else s)"

text \<open>
  The ticker exists from line 102 until the worker returns. It sends without
  blocking on a channel with one slot, so a tick that finds the slot full is lost.
\<close>

definition ticker_running :: "pc \<Rightarrow> bool" where
  "ticker_running p = (case p of InitVars \<Rightarrow> False | Returned r \<Rightarrow> False | Exited \<Rightarrow> False | _ \<Rightarrow> True)"

datatype label = Worker | Task nat | Cancel | Tick

definition step :: "env \<Rightarrow> string \<Rightarrow> StressTestParameters \<Rightarrow> label \<Rightarrow> state \<Rightarrow> state" where
  "step e nameserver parameters l s =
     (case l of
        Worker \<Rightarrow> worker_step e nameserver parameters s
      | Task k \<Rightarrow> task_step e parameters k s
      | Cancel \<Rightarrow> s\<lparr>ctx_done := True\<rparr>
      | Tick \<Rightarrow> if ticker_running (pc s) then s\<lparr>ticker_C := True\<rparr> else s)"

definition exec :: "env \<Rightarrow> string \<Rightarrow> StressTestParameters \<Rightarrow> label list \<Rightarrow> state \<Rightarrow> state" where
  "exec e nameserver parameters sched s = fold (step e nameserver parameters) sched s"

section \<open>The entry point (Start, lines 37-76)\<close>

text \<open>
  \<open>Start\<close> returns an error value and leaves behind the goroutines it has spawned,
  each with the arguments it was given and in its initial state. A \<open>nil\<close>
  configuration makes line 42 panic; the deferred handler of line 38 recovers.
\<close>

record goroutine =
  g_nameserver :: string
  g_parameters :: StressTestParameters
  g_state :: state

record started =
  returned :: "error option"
  spawned :: "goroutine list"
  start_log :: "event list"

definition Start :: "lookup \<Rightarrow> Config option \<Rightarrow> started" where
  "Start LookupNS config =
     (case config of
        None \<Rightarrow>
          \<lparr>returned = None, spawned = [], start_log = [Recovered nil_dereference]\<rparr>
      | Some c \<Rightarrow>
          (case getNameservers LookupNS (RootDomain c) (cfg_Protocol c) of
             (nameservers, Some err) \<Rightarrow>
               \<lparr>returned = Some (''failed to resolve nameservers for the root domain [rootDomain=''
                                   @ RootDomain c @ '']: '' @ err),
                spawned = [],
                start_log = [Log (LogIgniting c)]\<rparr>
           | (nameservers, None) \<Rightarrow>
               (let stressTestParameters =
                      \<lparr>Delay = cfg_Delay c, ParallelQueries = cfg_ParallelQueries c,
                       Protocol = cfg_Protocol c, SeedDomains = cfg_SeedDomains c\<rparr>
                in \<lparr>returned = None,
                    spawned = map (\<lambda>nameserver.
                                \<lparr>g_nameserver = nameserver, g_parameters = stressTestParameters,
                                 g_state = init\<rparr>) nameservers,
                    start_log = [Log (LogIgniting c), Log (LogResolved (RootDomain c) nameservers)]\<rparr>)))"

section \<open>Observations on a run\<close>

text \<open>The run of a worker under a schedule, from the start of the goroutine.\<close>

definition run :: "env \<Rightarrow> string \<Rightarrow> StressTestParameters \<Rightarrow> label list \<Rightarrow> state" where
  "run e nameserver parameters sched = exec e nameserver parameters sched init"

text \<open>
  The query goroutines that are outstanding (spawned and not yet at their end), and
  the number of query goroutines that round \<open>k\<close> has spawned.
\<close>

definition live :: "task list \<Rightarrow> nat" where
  "live ts = length (filter (\<lambda>t. t_pc t \<noteq> TExit) ts)"

definition spawned_in :: "nat \<Rightarrow> task list \<Rightarrow> nat" where
  "spawned_in k ts = length (filter (\<lambda>t. t_round t = k) ts)"

text \<open>
  What holds of the heap and of the rounds whatever \<open>ParallelQueries\<close> is: the one
  object of the query parameters is at the address 1 from the \<open>var\<close> block on, every
  query goroutine holds this address, and its round is one that has begun.
\<close>

definition loop_inv :: "state \<Rightarrow> bool" where
  "loop_inv s \<longleftrightarrow>
     (\<forall>t \<in> set (tasks s). 1 \<le> t_round t \<and> t_round t \<le> names s \<and> t_params t = 1 \<and>
        heap s 1 \<noteq> None) \<and>
     (case pc s of
        InitVars \<Rightarrow> tasks s = [] \<and> names s = 0
      | Bootstrap \<Rightarrow> tasks s = [] \<and> names s = 0 \<and> reusableQuery s = 1 \<and> heap s 1 \<noteq> None
      | GenerateName \<Rightarrow> reusableQuery s = 1 \<and> heap s 1 \<noteq> None
      | Returned r \<Rightarrow> True
      | Exited \<Rightarrow> True
      | _ \<Rightarrow> reusableQuery s = 1 \<and> heap s 1 \<noteq> None \<and> 1 \<le> names s)"

text \<open>
  The invariant of the round loop, by program point, for \<open>0 \<le> N < 2^31\<close>, where \<open>N\<close> is
  \<open>ParallelQueries\<close>. The counter of the wait group is the number of outstanding
  query goroutines plus the number of those that the current round has still to
  spawn. A worker that has ended has no outstanding query goroutine, and its last
  round has spawned all of its query goroutines unless the context is done.
\<close>

definition fanout_inv :: "int \<Rightarrow> state \<Rightarrow> bool" where
  "fanout_inv N s \<longleftrightarrow>
     (\<forall>t \<in> set (tasks s). 1 \<le> t_round t \<and> t_round t \<le> names s \<and> t_params t = 1 \<and>
        heap s 1 \<noteq> None \<and> (t_pc t \<noteq> TExit \<longrightarrow> t_round t = names s)) \<and>
     (\<forall>k. 1 \<le> k \<and> k < names s \<longrightarrow> spawned_in k (tasks s) = nat N) \<and>
     (case pc s of
        InitVars \<Rightarrow> tasks s = [] \<and> names s = 0 \<and> awaitGroup s = 0
      | Bootstrap \<Rightarrow> tasks s = [] \<and> names s = 0 \<and> awaitGroup s = 0 \<and>
          reusableQuery s = 1 \<and> heap s 1 \<noteq> None
      | GenerateName \<Rightarrow> awaitGroup s = 0 \<and> live (tasks s) = 0 \<and>
          reusableQuery s = 1 \<and> heap s 1 \<noteq> None \<and>
          (1 \<le> names s \<longrightarrow> spawned_in (names s) (tasks s) = nat N)
      | KeepAlive \<Rightarrow> awaitGroup s = 0 \<and> live (tasks s) = 0 \<and>
          reusableQuery s = 1 \<and> heap s 1 \<noteq> None \<and>
          spawned_in (names s) (tasks s) = 0 \<and> 1 \<le> names s
      | CheckCancel \<Rightarrow> awaitGroup s = 0 \<and> live (tasks s) = 0 \<and>
          reusableQuery s = 1 \<and> heap s 1 \<noteq> None \<and>
          spawned_in (names s) (tasks s) = 0 \<and> 1 \<le> names s
      | AddGroup \<Rightarrow> awaitGroup s = 0 \<and> live (tasks s) = 0 \<and>
          reusableQuery s = 1 \<and> heap s 1 \<noteq> None \<and>
          spawned_in (names s) (tasks s) = 0 \<and> 1 \<le> names s
      | Spawn i \<Rightarrow> 0 \<le> i \<and> i \<le> N \<and> spawned_in (names s) (tasks s) = nat i \<and>
          sint (awaitGroup s) = int (live (tasks s)) + (N - i) \<and>
          reusableQuery s = 1 \<and> heap s 1 \<noteq> None \<and> 1 \<le> names s
      | Await \<Rightarrow> 0 \<le> N \<and> spawned_in (names s) (tasks s) = nat N \<and>
          sint (awaitGroup s) = int (live (tasks s)) \<and>
          reusableQuery s = 1 \<and> heap s 1 \<noteq> None \<and> 1 \<le> names s
      | Pace \<Rightarrow> 0 \<le> N \<and> spawned_in (names s) (tasks s) = nat N \<and>
          awaitGroup s = 0 \<and> live (tasks s) = 0 \<and>
          reusableQuery s = 1 \<and> heap s 1 \<noteq> None \<and> 1 \<le> names s
      | Returned r \<Rightarrow> live (tasks s) = 0 \<and>
          (ctx_done s \<or> names s = 0 \<or> spawned_in (names s) (tasks s) = nat N)
      | Exited \<Rightarrow> live (tasks s) = 0 \<and>
          (ctx_done s \<or> names s = 0 \<or> spawned_in (names s) (tasks s) = nat N))"

text \<open>
  The invariant for the values of \<open>ParallelQueries\<close> whose 32 low bits are a negative
  number (among them \<open>- 2^31 \<le> N < 0\<close> and \<open>2^31 \<le> N < 2^32\<close>): \<open>Add\<close> panics in the
  first round, and no query goroutine is ever spawned.
\<close>

definition no_fanout_inv :: "state \<Rightarrow> bool" where
  "no_fanout_inv s \<longleftrightarrow>
     tasks s = [] \<and>
     (case pc s of
        Spawn i \<Rightarrow> False
      | Await \<Rightarrow> False
      | Pace \<Rightarrow> False
      | Returned r \<Rightarrow> True
      | Exited \<Rightarrow> True
      | _ \<Rightarrow> awaitGroup s = 0)"

text \<open>
  The two together. They cover \<open>- 2^31 \<le> N < 2^32\<close>: such an \<open>N\<close> either fits the
  counter of the wait group or makes \<open>Add\<close> panic.
\<close>

definition join_inv :: "int \<Rightarrow> state \<Rightarrow> bool" where
  "join_inv N s \<longleftrightarrow>
     0 \<le> N \<and> N < 2 ^ 31 \<and> fanout_inv N s \<or>
     sint (word_of_int N :: 32 word) < 0 \<and> no_fanout_inv s"

section \<open>The rounds in the words of the spec\<close>



text \<open>
  This definition follows the words of the spec, not the code: after each round
  the worker waits for the cancellation or for the delay before it starts the
  next round. On a schedule: whenever the worker goes from the second \<open>select\<close>
  to the head of the loop, the context was cancelled or the ticker has ticked
  since the worker arrived at the \<open>select\<close>. (A tick is the end of a period of
  \<open>Delay\<close>; that one has ended is less than the spec asks for, a whole \<open>Delay\<close>.)
  \<open>waited\<close> records whether that has happened since the arrival.
\<close>

fun waits_between_rounds ::
  "env \<Rightarrow> string \<Rightarrow> StressTestParameters \<Rightarrow> bool \<Rightarrow> state \<Rightarrow> label list \<Rightarrow> bool" where
  "waits_between_rounds e ns p waited s [] = True"
| "waits_between_rounds e ns p waited s (l # ls) =
     (if pc s = Pace
      then (pc (step e ns p l s) = GenerateName \<longrightarrow> waited) \<and>
           waits_between_rounds e ns p (waited \<or> l = Tick \<or> l = Cancel) (step e ns p l s) ls
      else waits_between_rounds e ns p False (step e ns p l s) ls)"

section \<open>The ticker\<close>

text \<open>
  The ticks of a schedule, and the invariant that relates them to the rounds: the
  first round needs no tick, every further round has taken one out of the channel
  of the ticker, and the channel holds at most one.
\<close>

definition ticks :: "label list \<Rightarrow> nat" where
  "ticks sched = length (filter (\<lambda>l. l = Tick) sched)"

definition buffered :: "state \<Rightarrow> nat" where
  "buffered s = (if ticker_C s then 1 else 0)"

definition rate_inv :: "nat \<Rightarrow> state \<Rightarrow> bool" where
  "rate_inv n s \<longleftrightarrow>
     (case pc s of
        InitVars \<Rightarrow> names s = 0
      | Bootstrap \<Rightarrow> names s + buffered s \<le> n
      | GenerateName \<Rightarrow> names s + buffered s \<le> n
      | Returned r \<Rightarrow> names s \<le> Suc n
      | Exited \<Rightarrow> names s \<le> Suc n
      | _ \<Rightarrow> names s + buffered s \<le> Suc n)"

section \<open>A worker without a ticker\<close>

text \<open>
  The message of the panic of \<open>time.NewTicker\<close>, and what holds of a worker whose
  \<open>Delay\<close> is not positive: it is at its start, or it has returned, with the
  recovered panic as the only entry of its log.
\<close>

definition ticker_panic :: string where
  "ticker_panic = ''non-positive interval for NewTicker''"

definition no_ticker_inv :: "state \<Rightarrow> bool" where
  "no_ticker_inv s \<longleftrightarrow>
     tasks s = [] \<and> names s = 0 \<and> dials (world s) = 0 \<and>
     (pc s = InitVars \<and> trace (world s) = [] \<or>
      (pc s = Returned None \<or> pc s = Exited) \<and> trace (world s) = [Recovered ticker_panic])"

section \<open>The loop without the network\<close>

text \<open>
  The state of a worker with the network world and the log left out: the program
  points of the worker and of its query goroutines, the variables, the heap, the
  context and the ticker. Two environments are the same for the loop when they
  differ at most in what the network answers.
\<close>

definition control :: "state \<Rightarrow> state" where
  "control s = s\<lparr>world := \<lparr>dials = 0, trace = []\<rparr>\<rparr>"

definition same_loop_env :: "env \<Rightarrow> env \<Rightarrow> bool" where
  "same_loop_env e e' \<longleftrightarrow>
     gen_bootstrap e = gen_bootstrap e' \<and> gen_next e = gen_next e' \<and>
     select_tick e = select_tick e'"

section \<open>Heartbeats\<close>

text \<open>
  The heartbeats in the log of a worker, and the number of rounds whose keep-alive
  check (lines 116-121) has been executed. The invariant relates both to the
  counter.
\<close>

fun is_heartbeat :: "event \<Rightarrow> bool" where
  "is_heartbeat (Log (LogStillBlasting host)) = True"
| "is_heartbeat ev = False"

definition heartbeats :: "state \<Rightarrow> nat" where
  "heartbeats s = length (filter is_heartbeat (trace (world s)))"

definition checks :: "state \<Rightarrow> nat" where
  "checks s = (if pc s = KeepAlive then names s - 1 else names s)"

definition heartbeat_inv :: "state \<Rightarrow> bool" where
  "heartbeat_inv s \<longleftrightarrow>
     heartbeats s = checks s div 257 \<and>
     keepAliveCounter s = int (checks s mod 257)"

text \<open>The heartbeats in the log of a network world.\<close>

definition beats :: "world \<Rightarrow> event list" where
  "beats w = filter is_heartbeat (trace w)"

section \<open>The shared query parameters\<close>

text \<open>
  This definition follows the words of the spec, not the code: per-round immutable
  value capture means that what a query goroutine of round \<open>k\<close> was given is the
  \<open>k\<close>-th name of the generator, whatever the worker does afterwards.
\<close>

definition per_round_immutable_capture :: "env \<Rightarrow> state \<Rightarrow> bool" where
  "per_round_immutable_capture e s =
     list_all (\<lambda>t. map_option QName (heap s (t_params t)) = gen_next e (t_round t - 1)) (tasks s)"

text \<open>
  What the code maintains instead: from the first round on, the \<open>QName\<close> of the one
  shared object is the name of the current round.
\<close>

definition qname_inv :: "env \<Rightarrow> state \<Rightarrow> bool" where
  "qname_inv e s \<longleftrightarrow>
     (1 \<le> names s \<longrightarrow>
        gen_next e (names s - 1) \<noteq> None \<and>
        map_option QName (heap s 1) = gen_next e (names s - 1))"

section \<open>After the cancellation\<close>

text \<open>
  \<open>after_cancel n m\<close> describes the states that follow a state with \<open>n\<close> names
  received and \<open>m\<close> query goroutines spawned in which the context was done: every
  later query goroutine belongs to round \<open>n\<close>, and a further name can only lead to
  the first \<open>select\<close>. \<open>todo\<close> bounds the moves that the worker and its query
  goroutines can still make once the context is done.
\<close>

definition late :: "pc \<Rightarrow> bool" where
  "late c = (case c of KeepAlive \<Rightarrow> True | CheckCancel \<Rightarrow> True | Returned r \<Rightarrow> True
             | Exited \<Rightarrow> True | _ \<Rightarrow> False)"

definition after_cancel :: "nat \<Rightarrow> nat \<Rightarrow> state \<Rightarrow> bool" where
  "after_cancel n m s \<longleftrightarrow>
     ctx_done s \<and> m \<le> length (tasks s) \<and>
     (\<forall>i. m \<le> i \<and> i < length (tasks s) \<longrightarrow> t_round (tasks s ! i) = n) \<and>
     (names s = n \<or> names s = Suc n \<and> late (pc s))"

fun wrank :: "int \<Rightarrow> pc \<Rightarrow> nat" where
  "wrank N InitVars = 7"
| "wrank N Bootstrap = 6"
| "wrank N GenerateName = 5"
| "wrank N KeepAlive = 4"
| "wrank N CheckCancel = 3"
| "wrank N AddGroup = 9 + 3 * nat N"
| "wrank N (Spawn i) = 8 + 3 * nat (N - i)"
| "wrank N Await = 7"
| "wrank N Pace = 6"
| "wrank N (Returned r) = 1"
| "wrank N Exited = 0"

fun trank :: "tpc \<Rightarrow> nat" where
  "trank TQuery = 2"
| "trank TDone = 1"
| "trank TExit = 0"

definition todo :: "int \<Rightarrow> state \<Rightarrow> nat" where
  "todo N s = wrank N (pc s) + sum_list (map (\<lambda>t. trank (t_pc t)) (tasks s))"

section \<open>Example inputs\<close>

definition example_lookup :: lookup where
  "example_lookup d =
     (if d = ''example.com''
      then ([\<lparr>Host = ''a.iana-servers.net.''\<rparr>, \<lparr>Host = ''b.iana-servers.net.''\<rparr>], None)
      else ([], Some ''no such host''))"

text \<open>An environment in which every dial and every exchange succeeds.\<close>

definition env_ok :: env where
  "env_ok = \<lparr>Fqdn = (\<lambda>s. s @ ''.''), dial_result = (\<lambda>n. None),
             exchange_result = (\<lambda>n. (1000, None)), gen_bootstrap = (\<lambda>seeds. None),
             gen_next = (\<lambda>k. Some (if k = 0 then ''a.example.com'' else ''b.example.com'')),
             select_tick = (\<lambda>k. True)\<rparr>"

definition params2 :: StressTestParameters where
  "params2 = \<lparr>Delay = 10000000, ParallelQueries = 2, Protocol = ''udp'',
              SeedDomains = [''a.example.com'']\<rparr>"

text \<open>
  A schedule that brings the worker to the join of its first round, after which one
  query goroutine finishes and the other runs its query.
\<close>

definition sched_join :: "label list" where
  "sched_join = [Worker, Worker, Worker, Worker, Worker, Worker, Worker, Worker, Worker,
                 Task 0, Task 1, Task 0]"



text \<open>More example inputs: a worker with no delay, a configuration, a query.\<close>

definition params_nodelay :: StressTestParameters where
  "params_nodelay = \<lparr>Delay = 0, ParallelQueries = 4, Protocol = ''udp'',
              SeedDomains = [''a.example.com'']\<rparr>"

definition example_config :: Config where
  "example_config = \<lparr>RootDomain = ''example.com'', cfg_Protocol = ''udp'',
     cfg_SeedDomains = [''a.example.com''], cfg_Delay = 10000000, cfg_ParallelQueries = 4\<rparr>"

definition query0 :: QueryParameters where
  "query0 = \<lparr>HostAndPort = ''a.iana-servers.net.:853'', QName = ''a.example.com'', QType = TypeA\<rparr>"

definition world0 :: world where
  "world0 = \<lparr>dials = 0, trace = []\<rparr>"

text \<open>
  Environments in which every dial is refused, in which the second dial is refused,
  and in which every exchange times out; a schedule that completes the first
  round and begins the second.
\<close>

definition env_refused :: env where
  "env_refused = env_ok\<lparr>dial_result := (\<lambda>n. Some ''connection refused'')\<rparr>"

definition env_second_refused :: env where
  "env_second_refused = env_ok\<lparr>dial_result := (\<lambda>n. if n = 1 then Some ''connection refused'' else None)\<rparr>"

definition env_timeout :: env where
  "env_timeout = env_ok\<lparr>exchange_result := (\<lambda>n. (300000000, Some ''i/o timeout''))\<rparr>"

definition sched_next_round :: "label list" where
  "sched_next_round = sched_join @ [Task 1, Worker, Tick, Worker, Worker]"

text \<open>
  A worker with one query per round, the schedule of one of its rounds (in which
  the query goroutine has the index \<open>m\<close>), and the schedule that starts the worker
  and runs \<open>k\<close> rounds. Between two rounds the worker is at the head of its loop.
\<close>

definition params1 :: StressTestParameters where
  "params1 = \<lparr>Delay = 10000000, ParallelQueries = 1, Protocol = ''udp'',
              SeedDomains = [''a.example.com'']\<rparr>"

definition round_sched :: "nat \<Rightarrow> label list" where
  "round_sched m = [Worker, Worker, Worker, Worker, Worker, Worker, Task m, Task m,
                    Worker, Tick, Worker]"

fun rounds_sched :: "nat \<Rightarrow> label list" where
  "rounds_sched 0 = [Worker, Worker]"
| "rounds_sched (Suc k) = rounds_sched k @ round_sched k"

definition between_rounds :: "nat \<Rightarrow> state \<Rightarrow> bool" where
  "between_rounds k s \<longleftrightarrow>
     pc s = GenerateName \<and> names s = k \<and> length (tasks s) = k \<and> \<not> ctx_done s \<and>
     awaitGroup s = 0 \<and> heap s (reusableQuery s) \<noteq> None"

text \<open>
  A schedule of one round during which the ticker ticks; the schedule that runs
  one round and spawns the query goroutine of the second;
  a schedule that cancels the context after the first \<open>select\<close> of the first round,
  and its continuation up to the second \<open>select\<close>.
\<close>

definition sched_early_tick :: "label list" where
  "sched_early_tick = [Worker, Worker, Worker, Worker, Worker, Worker, Tick, Worker, Worker,
                       Task 0, Task 0, Worker, Worker]"

definition sched_second_round :: "label list" where
  "sched_second_round = rounds_sched 1 @ [Worker, Worker, Worker, Worker, Worker]"

definition sched_cancel :: "label list" where
  "sched_cancel = [Worker, Worker, Worker, Worker, Worker, Cancel]"

definition sched_drain :: "label list" where
  "sched_drain = [Worker, Worker, Worker, Worker, Task 0, Task 0, Task 1, Task 1, Worker]"

section \<open>Properties of nameserver resolution\<close>

lemma Itoa_53: "Itoa 53 = ''53''"
  by (simp add: Itoa_def digits.simps digit_def)

lemma Itoa_853: "Itoa 853 = ''853''"
  by (simp add: Itoa_def digits.simps digit_def)

lemma getNameservers_failure:
  "snd (LookupNS rootDomain) = Some err \<Longrightarrow>
   getNameservers LookupNS rootDomain protocol = ([], Some err)"
  by (cases "LookupNS rootDomain") (simp add: getNameservers_def Let_def)

lemma getNameservers_success:
  "LookupNS rootDomain = (nss, None) \<Longrightarrow>
   getNameservers LookupNS rootDomain protocol =
     (map (\<lambda>nameserver. JoinHostPort (Host nameserver)
             (if protocol = ''tcp-tls'' then ''853'' else ''53'')) nss, None)"
  by (simp add: getNameservers_def Let_def TCPTLSProtoName_def DefaultDNSPort_def
      DefaultDNSOverTLSPort_def Itoa_53 Itoa_853)

text \<open>
  Claim C9. When the NS lookup of the root domain succeeds, \<open>getNameservers\<close> returns no
  error and one endpoint per NS record, in order; the endpoint of a record whose host
  has no colon is \<open>host:853\<close> for tcp-tls and \<open>host:53\<close> for udp and tcp. When the lookup
  fails, it returns the lookup's error and no endpoints.
\<close>

theorem getNameservers_endpoints:
  "(\<forall>nss. LookupNS rootDomain = (nss, None) \<longrightarrow>
      snd (getNameservers LookupNS rootDomain protocol) = None \<and>
      length (fst (getNameservers LookupNS rootDomain protocol)) = length nss \<and>
      (\<forall>i < length nss. CHR '':'' \<notin> set (Host (nss ! i)) \<longrightarrow>
         fst (getNameservers LookupNS rootDomain protocol) ! i =
           (if protocol = TCPTLSProtoName then Host (nss ! i) @ '':853''
            else Host (nss ! i) @ '':53'') \<and>
         (protocol = UDPProtoName \<or> protocol = TCPProtoName \<longrightarrow>
            fst (getNameservers LookupNS rootDomain protocol) ! i = Host (nss ! i) @ '':53'')))
   \<and> (\<forall>err. snd (LookupNS rootDomain) = Some err \<longrightarrow>
        getNameservers LookupNS rootDomain protocol = ([], Some err))"
proof (intro conjI allI impI)
  fix nss
  assume ok: "LookupNS rootDomain = (nss, None)"
  note eq = getNameservers_success [of LookupNS rootDomain nss protocol, OF ok]
  show "snd (getNameservers LookupNS rootDomain protocol) = None"
    by (simp add: eq)
  show "length (fst (getNameservers LookupNS rootDomain protocol)) = length nss"
    by (simp add: eq)
  fix i
  assume i: "i < length nss" and host: "CHR '':'' \<notin> set (Host (nss ! i))"
  show "fst (getNameservers LookupNS rootDomain protocol) ! i =
          (if protocol = TCPTLSProtoName then Host (nss ! i) @ '':853''
           else Host (nss ! i) @ '':53'')"
    using i host
    by (simp add: eq JoinHostPort_def TCPTLSProtoName_def)
  assume "protocol = UDPProtoName \<or> protocol = TCPProtoName"
  then show "fst (getNameservers LookupNS rootDomain protocol) ! i = Host (nss ! i) @ '':53''"
    using i host
    by (auto simp: eq JoinHostPort_def UDPProtoName_def
        TCPProtoName_def)
next
  fix err
  assume "snd (LookupNS rootDomain) = Some err"
  then show "getNameservers LookupNS rootDomain protocol = ([], Some err)"
    by (rule getNameservers_failure)
qed

theorem getNameservers_endpoints_witness:
  "snd (getNameservers example_lookup ''example.com'' ''tcp-tls'') = None \<and>
   length (fst (getNameservers example_lookup ''example.com'' ''tcp-tls'')) = 2 \<and>
   fst (getNameservers example_lookup ''example.com'' ''tcp-tls'') ! 0 = ''a.iana-servers.net.:853'' \<and>
   fst (getNameservers example_lookup ''example.com'' ''tcp-tls'') ! 1 = ''b.iana-servers.net.:853'' \<and>
   fst (getNameservers example_lookup ''example.com'' ''udp'') ! 1 = ''b.iana-servers.net.:53'' \<and>
   getNameservers example_lookup ''example.org'' ''udp'' = ([], Some ''no such host'')"
  using getNameservers_endpoints [of example_lookup "''example.com''" "''tcp-tls''"]
    getNameservers_endpoints [of example_lookup "''example.com''" "''udp''"]
    getNameservers_endpoints [of example_lookup "''example.org''" "''udp''"]
  by (simp add: example_lookup_def TCPTLSProtoName_def UDPProtoName_def TCPProtoName_def)

section \<open>Schedules and invariants\<close>

lemma exec_Nil: "exec e ns p [] s = s"
  by (simp add: exec_def)

lemma exec_snoc: "exec e ns p (sched @ [l]) s = step e ns p l (exec e ns p sched s)"
  by (simp add: exec_def)

lemma exec_append: "exec e ns p (xs @ ys) s = exec e ns p ys (exec e ns p xs s)"
  by (simp add: exec_def)

lemma exec_invariant:
  assumes "P s"
    and "\<And>l t. P t \<Longrightarrow> P (step e ns p l t)"
  shows "P (exec e ns p sched s)"
  using assms(1)
proof (induction sched arbitrary: s)
  case Nil
  then show ?case by (simp add: exec_def)
next
  case (Cons l sched)
  have "exec e ns p (l # sched) s = exec e ns p sched (step e ns p l s)"
    by (simp add: exec_def)
  with Cons assms(2) show ?case by simp
qed

section \<open>Counting query goroutines\<close>

lemma live_0: "live ts = 0 \<longleftrightarrow> (\<forall>t \<in> set ts. t_pc t = TExit)"
  by (auto simp: live_def filter_empty_conv)

lemma live_snoc: "live (ts @ [t]) = live ts + (if t_pc t \<noteq> TExit then 1 else 0)"
  by (simp add: live_def)

lemma spawned_in_snoc:
  "spawned_in k (ts @ [t]) = spawned_in k ts + (if t_round t = k then 1 else 0)"
  by (simp add: spawned_in_def)

lemma spawned_in_0: "spawned_in k ts = 0 \<longleftrightarrow> (\<forall>t \<in> set ts. t_round t \<noteq> k)"
  by (auto simp: spawned_in_def filter_empty_conv)

lemma count_update:
  "i < length xs \<Longrightarrow>
   length (filter P (xs[i := y])) + (if P (xs ! i) then 1 else 0) =
   length (filter P xs) + (if P y then 1 else 0)"
proof (induction xs arbitrary: i)
  case Nil
  then show ?case by simp
next
  case (Cons x xs)
  then show ?case by (cases i) auto
qed

lemma live_update:
  "k < length ts \<Longrightarrow>
   live (ts[k := y]) + (if t_pc (ts ! k) \<noteq> TExit then 1 else 0) =
   live ts + (if t_pc y \<noteq> TExit then 1 else 0)"
  unfolding live_def by (rule count_update)

lemma spawned_in_update:
  "k < length ts \<Longrightarrow> t_round y = t_round (ts ! k) \<Longrightarrow>
   spawned_in r (ts[k := y]) = spawned_in r ts"
  unfolding spawned_in_def
  using count_update [of k ts "\<lambda>t. t_round t = r" y] by simp

lemma live_update_keep:
  "k < length ts \<Longrightarrow> t_pc (ts ! k) \<noteq> TExit \<Longrightarrow> x \<noteq> TExit \<Longrightarrow>
   live (ts[k := (ts ! k)\<lparr>t_pc := x\<rparr>]) = live ts"
  using live_update [of k ts "(ts ! k)\<lparr>t_pc := x\<rparr>"] by simp

lemma live_update_exit:
  "k < length ts \<Longrightarrow> t_pc (ts ! k) \<noteq> TExit \<Longrightarrow>
   live ts = Suc (live (ts[k := (ts ! k)\<lparr>t_pc := TExit\<rparr>]))"
  using live_update [of k ts "(ts ! k)\<lparr>t_pc := TExit\<rparr>"] by simp


section \<open>The counter of the wait group\<close>

lemma sint_of_int_32:
  "- (2 ^ 31) \<le> k \<Longrightarrow> k < 2 ^ 31 \<Longrightarrow> sint (word_of_int k :: 32 word) = k"
  by (simp add: signed_of_int signed_take_bit_int_eq_self)

lemma sint_eq_32:
  "- (2 ^ 31) \<le> k \<Longrightarrow> k < 2 ^ 31 \<Longrightarrow> w = word_of_int k \<Longrightarrow> sint (w :: 32 word) = k"
  by (simp only: sint_of_int_32)

lemma sint_wg_Add_0:
  "0 \<le> N \<Longrightarrow> N < 2 ^ 31 \<Longrightarrow> sint (wg_Add 0 N) = N"
  by (simp add: wg_Add_def sint_of_int_32)

lemma wg_Add_0: "wg_Add 0 N = word_of_int N"
  by (simp add: wg_Add_def)

lemma sint_wg_Done:
  assumes "1 \<le> sint c"
  shows "sint (wg_Add c (- 1)) = sint c - 1"
proof (rule sint_eq_32)
  from assms show "- (2 ^ 31) \<le> sint c - 1" by simp
next
  show "sint c - 1 < 2 ^ 31"
    using sint_lt [of c] by simp
next
  show "wg_Add c (- 1) = word_of_int (sint c - 1)"
    by (simp add: wg_Add_def)
qed


section \<open>The invariants of the round loop\<close>

lemma loop_inv_init: "loop_inv init"
  by (simp add: loop_inv_def init_def)

lemma loop_inv_worker:
  assumes "loop_inv s"
  shows "loop_inv (worker_step e ns p s)"
proof (cases "pc s")
  case GenerateName
  with assms show ?thesis
    by (auto simp: loop_inv_def worker_step_def leave_def panic_in_loop_def
        split: option.splits)
next
  case KeepAlive
  with assms show ?thesis
    by (auto simp: loop_inv_def worker_step_def panic_in_loop_def split: option.splits)
qed (use assms in \<open>auto simp: loop_inv_def worker_step_def leave_def panic_in_loop_def
      split: option.splits\<close>)

lemma loop_inv_task:
  assumes "loop_inv s"
  shows "loop_inv (task_step e p k s)"
proof (cases "k < length (tasks s)")
  case False
  with assms show ?thesis by (simp add: task_step_def)
next
  case True
  then have "tasks s ! k \<in> set (tasks s)" by simp
  with assms have "heap s 1 \<noteq> None"
    unfolding loop_inv_def by blast
  with assms True show ?thesis
    by (cases "pc s"; cases "t_pc (tasks s ! k)")
      (auto simp: loop_inv_def task_step_def
        dest!: set_update_subset_insert [THEN subsetD] split: option.splits)
qed

lemma loop_inv_step:
  assumes "loop_inv s"
  shows "loop_inv (step e ns p l s)"
proof (cases l)
  case Worker
  with assms show ?thesis by (simp add: step_def loop_inv_worker)
next
  case (Task k)
  with assms show ?thesis by (simp add: step_def loop_inv_task)
next
  case Cancel
  with assms show ?thesis
    by (cases "pc s") (simp_all add: step_def loop_inv_def)
next
  case Tick
  with assms show ?thesis
    by (cases "pc s") (simp_all add: step_def loop_inv_def)
qed

lemma loop_inv_run: "loop_inv (run e ns p sched)"
  unfolding run_def
  by (rule exec_invariant [where P = loop_inv]) (simp_all add: loop_inv_init loop_inv_step)

lemma fanout_inv_init: "fanout_inv N init"
  by (simp add: fanout_inv_def init_def)

lemma fanout_inv_worker:
  assumes N: "0 \<le> ParallelQueries p" "ParallelQueries p < 2 ^ 31"
    and inv: "fanout_inv (ParallelQueries p) s"
  shows "fanout_inv (ParallelQueries p) (worker_step e ns p s)"
proof (cases "pc s")
  case InitVars
  with inv show ?thesis
    by (auto simp: fanout_inv_def worker_step_def PanicHandler_def live_def)
next
  case Bootstrap
  with inv show ?thesis
    by (auto simp: fanout_inv_def worker_step_def live_def split: option.splits)
next
  case GenerateName
  with inv show ?thesis
    by (auto simp: fanout_inv_def worker_step_def leave_def panic_in_loop_def live_0
        spawned_in_0 less_Suc_eq split: option.splits)
next
  case KeepAlive
  with inv show ?thesis
    by (auto simp: fanout_inv_def worker_step_def leave_def panic_in_loop_def
        split: option.splits)
next
  case CheckCancel
  with inv show ?thesis
    by (auto simp: fanout_inv_def worker_step_def leave_def)
next
  case AddGroup
  with inv have c: "awaitGroup s = 0" by (simp add: fanout_inv_def)
  from N have "sint (wg_Add 0 (ParallelQueries p)) = ParallelQueries p"
    by (rule sint_wg_Add_0)
  with AddGroup inv c N show ?thesis
    by (auto simp: fanout_inv_def worker_step_def)
next
  case (Spawn i)
  with inv show ?thesis
    by (auto simp: fanout_inv_def worker_step_def live_snoc spawned_in_snoc)
next
  case Await
  with inv show ?thesis
    by (auto simp: fanout_inv_def worker_step_def)
next
  case Pace
  with inv show ?thesis
    by (auto simp: fanout_inv_def worker_step_def leave_def)
next
  case (Returned r)
  with inv show ?thesis
    by (auto simp: fanout_inv_def worker_step_def split: option.splits)
next
  case Exited
  with inv show ?thesis
    by (auto simp: fanout_inv_def worker_step_def)
qed

lemma fanout_inv_task:
  assumes inv: "fanout_inv N s"
  shows "fanout_inv N (task_step e p k s)"
proof (cases "k < length (tasks s)")
  case False
  with inv show ?thesis by (simp add: task_step_def)
next
  case k: True
  then have mem: "tasks s ! k \<in> set (tasks s)" by simp
  show ?thesis
  proof (cases "t_pc (tasks s ! k)")
    case TExit
    with inv show ?thesis by (simp add: task_step_def)
  next
    case TQuery
    with inv k mem show ?thesis
      by (cases "pc s")
        (auto simp: fanout_inv_def task_step_def spawned_in_update live_0 live_update_keep
          dest!: set_update_subset_insert [THEN subsetD] split: option.splits)
  next
    case TDone
    then have nz: "t_pc (tasks s ! k) \<noteq> TExit" by simp
    note ex = live_update_exit [OF k nz]
    from mem nz have "live (tasks s) \<noteq> 0"
      by (auto simp: live_0)
    with inv have cur: "pc s = Await \<or> (\<exists>i. pc s = Spawn i)"
      by (cases "pc s") (auto simp: fanout_inv_def live_def)
    from inv cur ex have pos: "1 \<le> sint (awaitGroup s)"
      by (auto simp: fanout_inv_def)
    note d = sint_wg_Done [OF pos]
    from cur show ?thesis
    proof (elim disjE exE)
      assume "pc s = Await"
      with TDone inv k mem ex pos d show ?thesis
        by (auto simp: fanout_inv_def task_step_def spawned_in_update
            dest!: set_update_subset_insert [THEN subsetD])
    next
      fix i
      assume "pc s = Spawn i"
      with TDone inv k mem ex pos d show ?thesis
        by (auto simp: fanout_inv_def task_step_def spawned_in_update
            dest!: set_update_subset_insert [THEN subsetD])
    qed
  qed
qed

lemma fanout_inv_step:
  assumes N: "0 \<le> ParallelQueries p" "ParallelQueries p < 2 ^ 31"
    and inv: "fanout_inv (ParallelQueries p) s"
  shows "fanout_inv (ParallelQueries p) (step e ns p l s)"
proof (cases l)
  case Worker
  with N inv show ?thesis by (simp add: step_def fanout_inv_worker)
next
  case (Task k)
  with inv show ?thesis by (simp add: step_def fanout_inv_task)
next
  case Cancel
  with inv show ?thesis
    by (cases "pc s") (simp_all add: step_def fanout_inv_def)
next
  case Tick
  with inv show ?thesis
    by (cases "pc s") (simp_all add: step_def fanout_inv_def)
qed


lemma no_fanout_inv_init: "no_fanout_inv init"
  by (simp add: no_fanout_inv_def init_def)

lemma no_fanout_inv_worker:
  assumes N: "sint (word_of_int (ParallelQueries p) :: 32 word) < 0"
    and inv: "no_fanout_inv s"
  shows "no_fanout_inv (worker_step e ns p s)"
proof (cases "pc s")
  case AddGroup
  with inv have "awaitGroup s = 0" by (simp add: no_fanout_inv_def)
  with AddGroup inv N show ?thesis
    by (simp add: no_fanout_inv_def worker_step_def panic_in_loop_def wg_Add_0)
qed (use inv in \<open>auto simp: no_fanout_inv_def worker_step_def leave_def panic_in_loop_def
      split: option.splits\<close>)

lemma no_fanout_inv_step:
  assumes N: "sint (word_of_int (ParallelQueries p) :: 32 word) < 0"
    and inv: "no_fanout_inv s"
  shows "no_fanout_inv (step e ns p l s)"
proof (cases l)
  case Worker
  with N inv show ?thesis by (simp add: step_def no_fanout_inv_worker)
next
  case (Task k)
  with inv show ?thesis by (simp add: step_def no_fanout_inv_def task_step_def)
next
  case Cancel
  with inv show ?thesis
    by (cases "pc s") (simp_all add: step_def no_fanout_inv_def)
next
  case Tick
  with inv show ?thesis
    by (cases "pc s") (simp_all add: step_def no_fanout_inv_def)
qed

lemma counter_range:
  assumes "- (2 ^ 31) \<le> N" and "N < 2 ^ 32"
  shows "0 \<le> N \<and> N < 2 ^ 31 \<or> sint (word_of_int N :: 32 word) < 0"
proof (cases "0 \<le> N \<and> N < 2 ^ 31")
  case True
  then show ?thesis by simp
next
  case False
  show ?thesis
  proof (cases "N < 0")
    case True
    with assms have "sint (word_of_int N :: 32 word) = N"
      by (simp add: sint_of_int_32)
    with True show ?thesis by simp
  next
    case nonneg: False
    with False have big: "2 ^ 31 \<le> N" by simp
    have "sint (word_of_int N :: 32 word) = N - 2 ^ 32"
    proof (rule sint_eq_32)
      from big show "- (2 ^ 31) \<le> N - 2 ^ 32" by simp
    next
      from assms show "N - 2 ^ 32 < 2 ^ 31" by simp
    next
      show "(word_of_int N :: 32 word) = word_of_int (N - 2 ^ 32)"
        by simp
    qed
    with assms show ?thesis by simp
  qed
qed

lemma join_inv_init:
  assumes "- (2 ^ 31) \<le> N" and "N < 2 ^ 32"
  shows "join_inv N init"
  using counter_range [OF assms]
  by (auto simp: join_inv_def fanout_inv_init no_fanout_inv_init)

lemma join_inv_step:
  assumes "join_inv (ParallelQueries p) s"
  shows "join_inv (ParallelQueries p) (step e ns p l s)"
  using assms
  by (auto simp: join_inv_def fanout_inv_step no_fanout_inv_step)

lemma join_inv_run:
  assumes "- (2 ^ 31) \<le> ParallelQueries p" and "ParallelQueries p < 2 ^ 32"
  shows "join_inv (ParallelQueries p) (run e ns p sched)"
  unfolding run_def
proof (rule exec_invariant [where P = "join_inv (ParallelQueries p)"])
  from assms show "join_inv (ParallelQueries p) init"
    by (rule join_inv_init)
next
  fix l t
  assume "join_inv (ParallelQueries p) t"
  then show "join_inv (ParallelQueries p) (step e ns p l t)"
    by (rule join_inv_step)
qed

text \<open>What the invariant gives about the outstanding query goroutines.\<close>

lemma join_inv_current:
  "join_inv N s \<Longrightarrow> \<forall>t \<in> set (tasks s). t_pc t \<noteq> TExit \<longrightarrow> t_round t = names s"
  by (auto simp: join_inv_def fanout_inv_def no_fanout_inv_def)

lemma join_inv_quiet:
  assumes "join_inv N s"
    and "pc s = InitVars \<or> pc s = GenerateName \<or> pc s = Exited \<or> (\<exists>r. pc s = Returned r)"
  shows "live (tasks s) = 0"
  using assms
  by (auto simp: join_inv_def fanout_inv_def no_fanout_inv_def live_def)

lemma join_inv_await:
  assumes "join_inv N s" and "pc s = Await" and "awaitGroup s \<noteq> 0"
  shows "live (tasks s) \<noteq> 0"
  using assms signed_eq_0_iff [of "awaitGroup s", where ?'a = int]
  by (auto simp: join_inv_def fanout_inv_def no_fanout_inv_def)

section \<open>The moves of the query goroutines\<close>

lemma sum_update:
  "k < length ts \<Longrightarrow>
   sum_list (map f (ts[k := y])) + f (ts ! k) = sum_list (map f ts) + (f y :: nat)"
proof (induction ts arbitrary: k)
  case Nil
  then show ?case by simp
next
  case (Cons t ts)
  then show ?case by (cases k) auto
qed

lemma todo_task:
  assumes k: "k < length (tasks s)" and t: "t_pc (tasks s ! k) \<noteq> TExit"
  shows "todo N (task_step e p k s) < todo N s"
proof -
  have pc: "pc (task_step e p k s) = pc s"
    by (simp add: task_step_def split: tpc.splits option.splits)
  have "\<exists>x. tasks (task_step e p k s) = (tasks s)[k := (tasks s ! k)\<lparr>t_pc := x\<rparr>] \<and>
          trank x < trank (t_pc (tasks s ! k))"
  proof (cases "t_pc (tasks s ! k)")
    case TQuery
    show ?thesis
    proof (cases "heap s (t_params (tasks s ! k))")
      case None
      with TQuery k show ?thesis
        by (intro exI [of _ TExit]) (simp add: task_step_def)
    next
      case (Some q)
      with TQuery k show ?thesis
        by (intro exI [of _ TDone]) (simp add: task_step_def)
    qed
  next
    case TDone
    with k show ?thesis
      by (intro exI [of _ TExit]) (simp add: task_step_def)
  next
    case TExit
    with t show ?thesis by simp
  qed
  then obtain x where x: "tasks (task_step e p k s) = (tasks s)[k := (tasks s ! k)\<lparr>t_pc := x\<rparr>]"
    and less: "trank x < trank (t_pc (tasks s ! k))"
    by blast
  from sum_update [OF k, of "\<lambda>t. trank (t_pc t)" "(tasks s ! k)\<lparr>t_pc := x\<rparr>"] less
  have "sum_list (map (\<lambda>t. trank (t_pc t)) ((tasks s)[k := (tasks s ! k)\<lparr>t_pc := x\<rparr>]))
        < sum_list (map (\<lambda>t. trank (t_pc t)) (tasks s))"
    by simp
  with pc x show ?thesis by (simp add: todo_def)
qed

section \<open>Fan-out and join\<close>







section \<open>Pacing\<close>

text \<open>
  Claim C6, as stated, fails: the worker does not wait after each round. The ticker
  is created once, before the loop (line 102), and ticks with the period \<open>Delay\<close>
  whatever the worker does. In the schedule below it ticks while the first round
  is running; the tick waits in the channel, and at the second \<open>select\<close> the worker
  goes on to the next round at once, with no cancellation and no tick since the
  round ended.
\<close>

theorem waits_between_rounds_counterexample:
  "\<not> waits_between_rounds env_ok ''a.iana-servers.net.:53'' params1 False init sched_early_tick"
  by code_simp

lemma ticks_snoc: "ticks (sched @ [l]) = ticks sched + (if l = Tick then 1 else 0)"
  by (simp add: ticks_def)

lemma rate_inv_worker:
  assumes "rate_inv n s"
  shows "rate_inv n (worker_step e ns p s)"
proof (cases "pc s")
  case Pace
  with assms show ?thesis
    by (auto simp: rate_inv_def worker_step_def leave_def buffered_def)
qed (use assms in \<open>auto simp: rate_inv_def worker_step_def leave_def panic_in_loop_def
      buffered_def split: option.splits\<close>)

lemma rate_inv_task:
  assumes "rate_inv n s"
  shows "rate_inv n (task_step e p k s)"
proof -
  have "pc (task_step e p k s) = pc s \<and> names (task_step e p k s) = names s \<and>
        ticker_C (task_step e p k s) = ticker_C s"
    by (simp add: task_step_def split: tpc.splits option.splits)
  with assms show ?thesis
    by (cases "pc s") (simp_all add: rate_inv_def buffered_def)
qed

lemma rate_inv_tick:
  assumes "rate_inv n s"
  shows "rate_inv (Suc n) (step e ns p Tick s)"
  using assms
  by (cases "pc s") (auto simp: rate_inv_def step_def ticker_running_def buffered_def)

lemma rate_inv_cancel:
  assumes "rate_inv n s"
  shows "rate_inv n (step e ns p Cancel s)"
  using assms
  by (cases "pc s") (simp_all add: rate_inv_def step_def buffered_def)

lemma rate_inv_run: "rate_inv (ticks sched) (run e ns p sched)"
proof (induction sched rule: rev_induct)
  case Nil
  show ?case by (simp add: rate_inv_def run_def exec_def init_def ticks_def)
next
  case (snoc l sched)
  have r: "run e ns p (sched @ [l]) = step e ns p l (run e ns p sched)"
    by (simp add: run_def exec_snoc)
  show ?case
  proof (cases l)
    case Worker
    with snoc r show ?thesis by (simp add: ticks_snoc step_def rate_inv_worker)
  next
    case (Task k)
    with snoc r show ?thesis by (simp add: ticks_snoc step_def rate_inv_task)
  next
    case Cancel
    with snoc r show ?thesis by (simp add: ticks_snoc rate_inv_cancel)
  next
    case Tick
    with snoc r show ?thesis by (simp add: ticks_snoc rate_inv_tick)
  qed
qed

lemma rounds_le_ticks: "names (run e ns p sched) \<le> Suc (ticks sched)"
  using rate_inv_run [of sched e ns p]
  by (cases "pc (run e ns p sched)") (simp_all add: rate_inv_def)

lemma tick_stays:
  assumes "ticker_C s" and "\<not> (l = Worker \<and> (pc s = Pace \<or> pc s = InitVars))"
  shows "ticker_C (step e ns p l s)"
proof (cases l)
  case Worker
  with assms show ?thesis
    by (cases "pc s")
      (simp_all add: step_def worker_step_def leave_def panic_in_loop_def split: option.splits)
next
  case (Task k)
  with assms show ?thesis
    by (simp add: step_def task_step_def split: tpc.splits option.splits)
next
  case Cancel
  with assms show ?thesis by (simp add: step_def)
next
  case Tick
  with assms show ?thesis by (simp add: step_def)
qed

text \<open>
  Claim C6, amended. The pacing is that of a periodic ticker with a channel of one
  slot. While the worker is between line 102 and its return, a tick fills the
  channel, also while a round is running, and a tick that finds the channel full
  is lost; a tick in the channel stays there until the worker is at the second
  \<open>select\<close>. There, with the context not done, the worker does not move while the
  channel is empty, and with a tick in the channel it takes the tick and goes to
  the head of the loop at once. So every round but the first has taken one tick:
  under every schedule the number of rounds begun is at most one more than the
  number of ticks.
\<close>

theorem pacing_by_ticker:
  "(pc s = Pace \<and> \<not> ctx_done s \<and> \<not> ticker_C s \<longrightarrow> step e ns p Worker s = s) \<and>
   (pc s = Pace \<and> \<not> ctx_done s \<and> ticker_C s \<longrightarrow>
      step e ns p Worker s = s\<lparr>pc := GenerateName, ticker_C := False\<rparr>) \<and>
   (ticker_running (pc s) \<longrightarrow> step e ns p Tick s = s\<lparr>ticker_C := True\<rparr>) \<and>
   (ticker_C s \<and> \<not> (l = Worker \<and> (pc s = Pace \<or> pc s = InitVars)) \<longrightarrow>
      ticker_C (step e ns p l s)) \<and>
   names (run e ns p sched) \<le> Suc (ticks sched)"
proof -
  have 1: "pc s = Pace \<and> \<not> ctx_done s \<and> \<not> ticker_C s \<longrightarrow> step e ns p Worker s = s"
    by (simp add: step_def worker_step_def)
  have 2: "pc s = Pace \<and> \<not> ctx_done s \<and> ticker_C s \<longrightarrow>
      step e ns p Worker s = s\<lparr>pc := GenerateName, ticker_C := False\<rparr>"
    by (simp add: step_def worker_step_def)
  have 3: "ticker_running (pc s) \<longrightarrow> step e ns p Tick s = s\<lparr>ticker_C := True\<rparr>"
    by (simp add: step_def)
  have 4: "ticker_C s \<and> \<not> (l = Worker \<and> (pc s = Pace \<or> pc s = InitVars)) \<longrightarrow>
      ticker_C (step e ns p l s)"
    using tick_stays [of s l e ns p] by blast
  have 5: "names (run e ns p sched) \<le> Suc (ticks sched)"
    by (rule rounds_le_ticks)
  from 1 2 3 4 5 show ?thesis by blast
qed

theorem pacing_by_ticker_witness:
  "ticker_running (pc (run env_ok ''a.iana-servers.net.:53'' params1
      [Worker, Worker, Worker, Worker, Worker, Worker])) \<and>
   ticker_C (run env_ok ''a.iana-servers.net.:53'' params1
      [Worker, Worker, Worker, Worker, Worker, Worker, Tick]) \<and>
   pc (run env_ok ''a.iana-servers.net.:53'' params1 (butlast sched_early_tick)) = Pace \<and>
   \<not> ctx_done (run env_ok ''a.iana-servers.net.:53'' params1 (butlast sched_early_tick)) \<and>
   ticker_C (run env_ok ''a.iana-servers.net.:53'' params1 (butlast sched_early_tick)) \<and>
   pc (run env_ok ''a.iana-servers.net.:53'' params1 sched_early_tick) = GenerateName \<and>
   \<not> ticker_C (run env_ok ''a.iana-servers.net.:53'' params1 sched_early_tick) \<and>
   names (run env_ok ''a.iana-servers.net.:53'' params1 sched_early_tick) = 1 \<and>
   ticks sched_early_tick = 1 \<and>
   pc (run env_ok ''a.iana-servers.net.:53'' params2 (sched_join @ [Task 1, Worker])) = Pace \<and>
   \<not> ctx_done (run env_ok ''a.iana-servers.net.:53'' params2 (sched_join @ [Task 1, Worker])) \<and>
   \<not> ticker_C (run env_ok ''a.iana-servers.net.:53'' params2 (sched_join @ [Task 1, Worker])) \<and>
   step env_ok ''a.iana-servers.net.:53'' params2 Worker
      (run env_ok ''a.iana-servers.net.:53'' params2 (sched_join @ [Task 1, Worker])) =
     run env_ok ''a.iana-servers.net.:53'' params2 (sched_join @ [Task 1, Worker]) \<and>
   names (run env_ok ''a.iana-servers.net.:53'' params2 sched_next_round) \<le> 2"
proof -
  let ?ns = "''a.iana-servers.net.:53''"
  let ?a = "run env_ok ?ns params1 [Worker, Worker, Worker, Worker, Worker, Worker]"
  let ?b = "run env_ok ?ns params1 (butlast sched_early_tick)"
  let ?c = "run env_ok ?ns params2 (sched_join @ [Task 1, Worker])"
  have a: "ticker_running (pc ?a)"
    by code_simp
  have b: "pc ?b = Pace" "\<not> ctx_done ?b" "ticker_C ?b"
    by code_simp+
  have c: "pc ?c = Pace" "\<not> ctx_done ?c" "\<not> ticker_C ?c"
    by code_simp+
  have t: "ticks sched_early_tick = 1" "ticks sched_next_round = 1"
    by code_simp+
  have r: "run env_ok ?ns params1 [Worker, Worker, Worker, Worker, Worker, Worker, Tick] =
      step env_ok ?ns params1 Tick ?a"
    "run env_ok ?ns params1 sched_early_tick = step env_ok ?ns params1 Worker ?b"
    by (simp_all add: run_def exec_def sched_early_tick_def)
  note i1 = pacing_by_ticker [where s = ?a and e = env_ok and ns = ?ns and p = params1
      and l = Tick and sched = sched_early_tick]
  note i2 = pacing_by_ticker [where s = ?b and e = env_ok and ns = ?ns and p = params1
      and l = Tick and sched = sched_early_tick]
  note i3 = pacing_by_ticker [where s = ?c and e = env_ok and ns = ?ns and p = params2
      and l = Tick and sched = sched_next_round]
  from i1 a have "step env_ok ?ns params1 Tick ?a = ?a\<lparr>ticker_C := True\<rparr>"
    by blast
  with r have 1: "ticker_C (run env_ok ?ns params1 [Worker, Worker, Worker, Worker, Worker, Worker, Tick])"
    by simp
  from i2 b have "step env_ok ?ns params1 Worker ?b = ?b\<lparr>pc := GenerateName, ticker_C := False\<rparr>"
    by blast
  with r have 2: "pc (run env_ok ?ns params1 sched_early_tick) = GenerateName"
    "\<not> ticker_C (run env_ok ?ns params1 sched_early_tick)"
    by simp_all
  have 3: "names (run env_ok ?ns params1 sched_early_tick) = 1"
    by code_simp
  from i3 c have 4: "step env_ok ?ns params2 Worker ?c = ?c"
    by blast
  from i3 t have 5: "names (run env_ok ?ns params2 sched_next_round) \<le> 2"
    by simp
  from a b c t 1 2 3 4 5 show ?thesis by simp
qed

section \<open>A delay that is not positive\<close>

lemma no_ticker_inv_cases:
  assumes "no_ticker_inv s"
  obtains (start) "pc s = InitVars" "trace (world s) = []"
  | (returned) "pc s = Returned None" "trace (world s) = [Recovered ticker_panic]"
  | (exited) "pc s = Exited" "trace (world s) = [Recovered ticker_panic]"
  using assms unfolding no_ticker_inv_def by blast

lemma no_ticker_inv_worker:
  assumes d: "Delay p \<le> 0" and inv: "no_ticker_inv s"
  shows "no_ticker_inv (worker_step e ns p s)"
proof -
  from inv have base: "tasks s = []" "names s = 0" "dials (world s) = 0"
    by (simp_all add: no_ticker_inv_def)
  from inv show ?thesis
  proof (cases rule: no_ticker_inv_cases)
    case start
    with d base show ?thesis
      by (simp add: no_ticker_inv_def worker_step_def PanicHandler_def emit_def ticker_panic_def)
  next
    case returned
    with base show ?thesis
      by (simp add: no_ticker_inv_def worker_step_def)
  next
    case exited
    with base show ?thesis
      by (simp add: no_ticker_inv_def worker_step_def)
  qed
qed

lemma no_ticker_inv_step:
  assumes "Delay p \<le> 0" and "no_ticker_inv s"
  shows "no_ticker_inv (step e ns p l s)"
proof (cases l)
  case Worker
  with assms show ?thesis
    by (simp add: step_def no_ticker_inv_worker)
next
  case (Task k)
  with assms show ?thesis
    by (simp add: no_ticker_inv_def step_def task_step_def)
next
  case Cancel
  with assms show ?thesis
    by (simp add: no_ticker_inv_def step_def)
next
  case Tick
  from assms(2) have "\<not> ticker_running (pc s)"
    by (cases rule: no_ticker_inv_cases) (simp_all add: ticker_running_def)
  with Tick assms show ?thesis
    by (simp add: step_def)
qed

lemma no_ticker_inv_run:
  assumes "Delay p \<le> 0"
  shows "no_ticker_inv (run e ns p sched)"
  unfolding run_def
proof (rule exec_invariant [where P = no_ticker_inv])
  show "no_ticker_inv init"
    by (simp add: no_ticker_inv_def init_def)
next
  fix l t
  assume "no_ticker_inv t"
  with assms show "no_ticker_inv (step e ns p l t)"
    by (rule no_ticker_inv_step)
qed

text \<open>
  Claim C10. When \<open>Delay\<close> is zero (or negative), the first step of the worker, the
  \<open>var\<close> block with \<open>time.NewTicker\<close>, panics; the deferred handler recovers and
  \<open>ExecuteStressTest\<close> returns \<open>nil\<close>. Under every schedule the worker then spawns no
  query goroutine, receives no name, dials no connection and logs nothing but the
  recovered panic. When \<open>Delay\<close> is positive the first step passes to the bootstrap.
\<close>

theorem nonpositive_delay_panics:
  "(Delay p \<le> 0 \<longrightarrow>
      pc (step e ns p Worker init) = Returned None \<and>
      trace (world (step e ns p Worker init)) = [Recovered ticker_panic] \<and>
      tasks (run e ns p sched) = [] \<and>
      names (run e ns p sched) = 0 \<and>
      dials (world (run e ns p sched)) = 0 \<and>
      pc (run e ns p sched) \<in> {InitVars, Returned None, Exited} \<and>
      set (trace (world (run e ns p sched))) \<subseteq> {Recovered ticker_panic}) \<and>
   (0 < Delay p \<longrightarrow>
      pc (step e ns p Worker init) = Bootstrap \<and>
      trace (world (step e ns p Worker init)) = [])"
proof (intro conjI impI)
  assume d: "Delay p \<le> 0"
  from d show "pc (step e ns p Worker init) = Returned None"
    by (simp add: step_def worker_step_def init_def)
  from d show "trace (world (step e ns p Worker init)) = [Recovered ticker_panic]"
    by (simp add: step_def worker_step_def init_def PanicHandler_def emit_def ticker_panic_def)
  note inv = no_ticker_inv_run [OF d, of e ns sched]
  from inv show "tasks (run e ns p sched) = []"
    by (simp add: no_ticker_inv_def)
  from inv show "names (run e ns p sched) = 0"
    by (simp add: no_ticker_inv_def)
  from inv show "dials (world (run e ns p sched)) = 0"
    by (simp add: no_ticker_inv_def)
  from inv show "pc (run e ns p sched) \<in> {InitVars, Returned None, Exited}"
    by (auto simp: no_ticker_inv_def)
  from inv show "set (trace (world (run e ns p sched))) \<subseteq> {Recovered ticker_panic}"
    by (auto simp: no_ticker_inv_def)
next
  assume d: "0 < Delay p"
  from d show "pc (step e ns p Worker init) = Bootstrap"
    by (simp add: step_def worker_step_def init_def)
  from d show "trace (world (step e ns p Worker init)) = []"
    by (simp add: step_def worker_step_def init_def)
qed

theorem nonpositive_delay_panics_witness:
  "Delay params_nodelay \<le> 0 \<and>
   pc (step env_ok ''a.iana-servers.net.:53'' params_nodelay Worker init) = Returned None \<and>
   tasks (run env_ok ''a.iana-servers.net.:53'' params_nodelay [Worker, Tick, Worker, Task 0, Worker]) = [] \<and>
   dials (world (run env_ok ''a.iana-servers.net.:53'' params_nodelay [Worker, Tick, Worker, Task 0, Worker])) = 0 \<and>
   0 < Delay params2 \<and>
   pc (step env_ok ''a.iana-servers.net.:53'' params2 Worker init) = Bootstrap"
proof -
  have a: "Delay params_nodelay \<le> 0" by (simp add: params_nodelay_def)
  have b: "0 < Delay params2" by (simp add: params2_def)
  from a b
    nonpositive_delay_panics [of params_nodelay env_ok "''a.iana-servers.net.:53''"
      "[Worker, Tick, Worker, Task 0, Worker]"]
    nonpositive_delay_panics [of params2 env_ok "''a.iana-servers.net.:53''" "[]"]
  show ?thesis by simp
qed

section \<open>The entry point\<close>

text \<open>
  Claim C4. For a configuration \<open>c\<close>, \<open>Start\<close> returns an error exactly when the NS lookup
  of the root domain fails, and then it has spawned no worker. When the lookup
  succeeds it has spawned one worker per NS record, for the endpoints that
  \<open>getNameservers\<close> returns and in their order, all with the parameters taken from
  \<open>c\<close>; and when it returns every one of them is still in its initial state: \<open>Start\<close>
  has not waited for any of them.
\<close>

theorem Start_resolution:
  "(returned (Start LookupNS (Some c)) \<noteq> None \<longleftrightarrow> snd (LookupNS (RootDomain c)) \<noteq> None) \<and>
   (returned (Start LookupNS (Some c)) \<noteq> None \<and> spawned (Start LookupNS (Some c)) = []
      \<longleftrightarrow> snd (LookupNS (RootDomain c)) \<noteq> None) \<and>
   (snd (LookupNS (RootDomain c)) = None \<longrightarrow>
      length (spawned (Start LookupNS (Some c))) = length (fst (LookupNS (RootDomain c))) \<and>
      map g_nameserver (spawned (Start LookupNS (Some c))) =
        fst (getNameservers LookupNS (RootDomain c) (cfg_Protocol c)) \<and>
      (\<forall>g \<in> set (spawned (Start LookupNS (Some c))).
         g_state g = init \<and> pc (g_state g) = InitVars \<and>
         g_parameters g = \<lparr>Delay = cfg_Delay c, ParallelQueries = cfg_ParallelQueries c,
                            Protocol = cfg_Protocol c, SeedDomains = cfg_SeedDomains c\<rparr>))"
proof (cases "LookupNS (RootDomain c)")
  case (Pair nss err)
  show ?thesis
  proof (cases err)
    case None
    with Pair show ?thesis
      by (auto simp: Start_def getNameservers_def Let_def init_def comp_def)
  next
    case (Some x)
    with Pair show ?thesis
      by (simp add: Start_def getNameservers_def Let_def)
  qed
qed

theorem Start_resolution_witness:
  "snd (example_lookup (RootDomain example_config)) = None \<and>
   returned (Start example_lookup (Some example_config)) = None \<and>
   map g_nameserver (spawned (Start example_lookup (Some example_config))) =
     [''a.iana-servers.net.:53'', ''b.iana-servers.net.:53''] \<and>
   snd (example_lookup (RootDomain (example_config\<lparr>RootDomain := ''example.org''\<rparr>))) \<noteq> None \<and>
   returned (Start example_lookup (Some (example_config\<lparr>RootDomain := ''example.org''\<rparr>))) \<noteq> None \<and>
   spawned (Start example_lookup (Some (example_config\<lparr>RootDomain := ''example.org''\<rparr>))) = []"
proof -
  have a: "snd (example_lookup (RootDomain example_config)) = None"
    by (simp add: example_lookup_def example_config_def)
  have b: "snd (example_lookup (RootDomain (example_config\<lparr>RootDomain := ''example.org''\<rparr>))) \<noteq> None"
    by (simp add: example_lookup_def example_config_def)
  have c: "fst (getNameservers example_lookup (RootDomain example_config) (cfg_Protocol example_config))
     = [''a.iana-servers.net.:53'', ''b.iana-servers.net.:53'']"
    by code_simp
  from a b c Start_resolution [of example_lookup example_config]
    Start_resolution [of example_lookup "example_config\<lparr>RootDomain := ''example.org''\<rparr>"]
  show ?thesis by simp
qed

section \<open>The connection of the exchange\<close>

text \<open>
  Claim C1. With the network tcp-tls and dials that succeed, neither variant
  exchanges on the connection that it has dialled and upgraded, and the two do not
  perform the same exchange. \<open>SimpleQuery\<close> passes the upgraded connection to
  \<open>ExchangeWithConn\<close>; the upgrade of line 179 has made the connection its own
  transport, so the call ends the process with a stack overflow and no \<open>Response\<close> is
  returned. \<open>SimpleQueryWithNoResponse\<close> calls \<open>Exchange\<close> with the address, so its
  exchange goes over a second connection, which presents the standard ClientHello
  and is closed afterwards; the upgraded connection carries nothing, and the
  deferred \<open>Close\<close> of it closes nothing.
\<close>

theorem tcp_tls_exchange_connection:
  assumes "Net c = TCPTLSProtoName"
    and "dial_result e (dials w) = None"
    and "dial_result e (Suc (dials w)) = None"
  shows "SimpleQuery e c q w = Inl StackOverflow \<and>
         trace (SimpleQueryWithNoResponse e c q w) =
           trace w @
           [Dialed (HostAndPort q) (dials w), Upgraded (dials w) HelloRandomized,
            Dialed (HostAndPort q) (Suc (dials w)),
            Exchanged (Suc (dials w)) HelloStandard (SetQuestion (Fqdn e (QName q)) (QType q))
              (snd (exchange_result e (Suc (dials w)))),
            Closed (Suc (dials w))] @
           (case snd (exchange_result e (Suc (dials w))) of
              Some x \<Rightarrow> [Log (LogQueryFailed x)] | None \<Rightarrow> []) @
           [CloseFailed (dials w)]"
proof
  from assms show "SimpleQuery e c q w = Inl StackOverflow"
    by (simp add: SimpleQuery_def Dial_def UClient_def ExchangeWithConn_def Let_def)
next
  from assms show "trace (SimpleQueryWithNoResponse e c q w) =
           trace w @
           [Dialed (HostAndPort q) (dials w), Upgraded (dials w) HelloRandomized,
            Dialed (HostAndPort q) (Suc (dials w)),
            Exchanged (Suc (dials w)) HelloStandard (SetQuestion (Fqdn e (QName q)) (QType q))
              (snd (exchange_result e (Suc (dials w)))),
            Closed (Suc (dials w))] @
           (case snd (exchange_result e (Suc (dials w))) of
              Some x \<Rightarrow> [Log (LogQueryFailed x)] | None \<Rightarrow> []) @
           [CloseFailed (dials w)]"
    by (simp add: SimpleQueryWithNoResponse_def Exchange_def Dial_def UClient_def
        exchange_on_def Close_def emit_def Let_def useTLS_def TCPTLSProtoName_def
        split: prod.splits option.splits)
qed

theorem tcp_tls_exchange_connection_witness:
  "Net (newDefaultDNSClient ''tcp-tls'') = TCPTLSProtoName \<and>
   dial_result env_ok (dials world0) = None \<and>
   dial_result env_ok (Suc (dials world0)) = None \<and>
   SimpleQuery env_ok (newDefaultDNSClient ''tcp-tls'') query0 world0 = Inl StackOverflow \<and>
   trace (SimpleQueryWithNoResponse env_ok (newDefaultDNSClient ''tcp-tls'') query0 world0) =
     [Dialed ''a.iana-servers.net.:853'' 0, Upgraded 0 HelloRandomized,
      Dialed ''a.iana-servers.net.:853'' 1,
      Exchanged 1 HelloStandard (SetQuestion ''a.example.com.'' 1) None, Closed 1,
      CloseFailed 0]"
proof -
  have a: "Net (newDefaultDNSClient ''tcp-tls'') = TCPTLSProtoName"
    by (simp add: newDefaultDNSClient_def TCPTLSProtoName_def)
  have b: "dial_result env_ok (dials world0) = None"
    by (simp add: env_ok_def)
  have c: "dial_result env_ok (Suc (dials world0)) = None"
    by (simp add: env_ok_def)
  from a b c tcp_tls_exchange_connection [OF a b c, of query0]
  show ?thesis
    by (simp add: env_ok_def query0_def world0_def TypeA_def)
qed

section \<open>Failing queries\<close>

lemma control_eqD: "control s = control t \<Longrightarrow> t = s\<lparr>world := world t\<rparr>"
  by (cases s, cases t) (simp add: control_def)

lemma control_world [simp]: "control (s\<lparr>world := w\<rparr>) = control s"
  by (simp add: control_def)

lemma control_worker:
  assumes "same_loop_env e e'"
  shows "control (worker_step e' ns p (s\<lparr>world := w\<rparr>)) = control (worker_step e ns p s)"
  using assms
  by (cases "pc s")
    (auto simp: worker_step_def same_loop_env_def leave_def panic_in_loop_def control_def
      split: option.splits)

lemma control_task:
  "control (task_step e' p k (s\<lparr>world := w\<rparr>)) = control (task_step e p k s)"
  by (auto simp: task_step_def control_def split: tpc.splits option.splits)

lemma control_step:
  assumes "same_loop_env e e'" and "control s = control t"
  shows "control (step e ns p l s) = control (step e' ns p l t)"
proof -
  from assms(2) have t: "t = s\<lparr>world := world t\<rparr>" by (rule control_eqD)
  show ?thesis
  proof (cases l)
    case Worker
    then show ?thesis
      using control_worker [OF assms(1), where ns = ns and p = p and s = s and w = "world t"] t
      by (simp add: step_def)
  next
    case (Task k)
    then show ?thesis
      using control_task [where e' = e' and p = p and k = k and s = s and w = "world t" and e = e] t
      by (simp add: step_def)
  next
    case Cancel
    then show ?thesis
      using assms(2) by (cases s, cases t) (simp add: step_def control_def)
  next
    case Tick
    then show ?thesis
      using assms(2) by (cases s, cases t) (simp add: step_def control_def)
  qed
qed

lemma control_exec:
  assumes "same_loop_env e e'" and "control s = control t"
  shows "control (exec e ns p sched s) = control (exec e' ns p sched t)"
  using assms(2)
proof (induction sched arbitrary: s t)
  case Nil
  then show ?case by (simp add: exec_def)
next
  case (Cons l sched)
  have "control (step e ns p l s) = control (step e' ns p l t)"
    using assms(1) Cons.prems by (rule control_step)
  then have "control (exec e ns p sched (step e ns p l s)) =
             control (exec e' ns p sched (step e' ns p l t))"
    by (rule Cons.IH)
  then show ?case by (simp add: exec_def)
qed

lemma dial_failure_no_response:
  "dial_result e (dials w) = Some err \<Longrightarrow>
   SimpleQueryWithNoResponse e c q w =
     \<lparr>dials = Suc (dials w),
      trace = trace w @ [DialFailed (HostAndPort q) err, Log (LogDialFailed (HostAndPort q) err)]\<rparr>"
  by (simp add: SimpleQueryWithNoResponse_def Dial_def emit_def Let_def)

lemma dial_failure_response:
  "dial_result e (dials w) = Some err \<Longrightarrow>
   SimpleQuery e c q w =
     Inr (\<lparr>WithErr = True, Err = Some err, Latency = 0\<rparr>,
          \<lparr>dials = Suc (dials w), trace = trace w @ [DialFailed (HostAndPort q) err]\<rparr>)"
  by (simp add: SimpleQuery_def Dial_def emit_def Let_def)

lemma second_dial_failure_no_response:
  "dial_result e (dials w) = None \<Longrightarrow> dial_result e (Suc (dials w)) = Some err \<Longrightarrow>
   Log (LogQueryFailed err) \<in> set (trace (SimpleQueryWithNoResponse e c q w))"
  by (simp add: SimpleQueryWithNoResponse_def Exchange_def Dial_def UClient_def Close_def
      emit_def Let_def)

lemma exchange_failure_no_response:
  "dial_result e (dials w) = None \<Longrightarrow> dial_result e (Suc (dials w)) = None \<Longrightarrow>
   snd (exchange_result e (Suc (dials w))) = Some err \<Longrightarrow>
   Log (LogQueryFailed err) \<in> set (trace (SimpleQueryWithNoResponse e c q w))"
  by (cases "exchange_result e (Suc (dials w))")
    (simp add: SimpleQueryWithNoResponse_def Exchange_def Dial_def UClient_def Close_def
      exchange_on_def emit_def Let_def)

lemma exchange_failure_response:
  "Net c \<noteq> TCPTLSProtoName \<Longrightarrow>
   dial_result e (dials w) = None \<Longrightarrow> snd (exchange_result e (dials w)) = Some err \<Longrightarrow>
   \<exists>r w'. SimpleQuery e c q w = Inr (r, w') \<and> WithErr r \<and> Err r = Some err"
  by (cases "exchange_result e (dials w)")
    (simp add: SimpleQuery_def Dial_def Close_def ExchangeWithConn_def exchange_on_def
      emit_def Let_def)

lemma self_wrapped_exchange_is_fatal:
  "Net c = TCPTLSProtoName \<Longrightarrow> dial_result e (dials w) = None \<Longrightarrow>
   SimpleQuery e c q w = Inl StackOverflow"
  by (simp add: SimpleQuery_def Dial_def UClient_def ExchangeWithConn_def Let_def)

lemma control_run_network:
  "control (run (e\<lparr>dial_result := d, exchange_result := x\<rparr>) ns p sched) = control (run e ns p sched)"
  unfolding run_def
  by (rule control_exec) (simp_all add: same_loop_env_def)

text \<open>
  Claim C8. A dial that fails makes \<open>SimpleQueryWithNoResponse\<close> log the failure and
  return, and makes \<open>SimpleQuery\<close> return a \<open>Response\<close> that carries the error. An exchange
  that fails (by a refused dial inside \<open>Exchange\<close>, an error of the exchange or a
  timeout, which the library reports as an error) makes \<open>SimpleQueryWithNoResponse\<close>
  log the failure and return; it makes \<open>SimpleQuery\<close> return a \<open>Response\<close> that carries
  the error when the network is not tcp-tls. With the network tcp-tls, \<open>SimpleQuery\<close>
  returns no error outcome once its dial has succeeded, whatever the exchange would
  have answered: the call of \<open>ExchangeWithConn\<close> on the connection that wraps itself
  ends the process with a stack overflow, which no \<open>recover\<close> catches. And whatever
  the network answers, under every schedule the worker and its query goroutines
  (which call \<open>SimpleQueryWithNoResponse\<close>) are at the same program points with the
  same variables: a failing query changes nothing in the round loop but the log.
\<close>

theorem query_failures_are_swallowed:
  "(\<forall>err. dial_result e (dials w) = Some err \<longrightarrow>
       SimpleQueryWithNoResponse e c q w =
         \<lparr>dials = Suc (dials w),
          trace = trace w @ [DialFailed (HostAndPort q) err,
                             Log (LogDialFailed (HostAndPort q) err)]\<rparr> \<and>
       SimpleQuery e c q w =
         Inr (\<lparr>WithErr = True, Err = Some err, Latency = 0\<rparr>,
              \<lparr>dials = Suc (dials w), trace = trace w @ [DialFailed (HostAndPort q) err]\<rparr>)) \<and>
   (\<forall>err. dial_result e (dials w) = None \<and> dial_result e (Suc (dials w)) = Some err \<longrightarrow>
       Log (LogQueryFailed err) \<in> set (trace (SimpleQueryWithNoResponse e c q w))) \<and>
   (\<forall>err. dial_result e (dials w) = None \<and> dial_result e (Suc (dials w)) = None \<and>
          snd (exchange_result e (Suc (dials w))) = Some err \<longrightarrow>
       Log (LogQueryFailed err) \<in> set (trace (SimpleQueryWithNoResponse e c q w))) \<and>
   (\<forall>err. Net c \<noteq> TCPTLSProtoName \<and>
          dial_result e (dials w) = None \<and> snd (exchange_result e (dials w)) = Some err \<longrightarrow>
       (\<exists>r w'. SimpleQuery e c q w = Inr (r, w') \<and> WithErr r \<and> Err r = Some err)) \<and>
   (Net c = TCPTLSProtoName \<and> dial_result e (dials w) = None \<longrightarrow>
       SimpleQuery e c q w = Inl StackOverflow) \<and>
   control (run (e\<lparr>dial_result := d, exchange_result := x\<rparr>) ns p sched) =
     control (run e ns p sched)"
  using dial_failure_no_response [where e = e and w = w and c = c and q = q]
    dial_failure_response [where e = e and w = w and c = c and q = q]
    second_dial_failure_no_response [where e = e and w = w and c = c and q = q]
    exchange_failure_no_response [where e = e and w = w and c = c and q = q]
    exchange_failure_response [where e = e and w = w and c = c and q = q]
    self_wrapped_exchange_is_fatal [where e = e and w = w and c = c and q = q]
    control_run_network [where e = e and d = d and x = x and ns = ns and p = p and sched = sched]
  by blast

theorem query_failures_are_swallowed_witness:
  "dial_result env_refused (dials world0) = Some ''connection refused'' \<and>
   trace (SimpleQueryWithNoResponse env_refused (newDefaultDNSClient ''tcp-tls'') query0 world0) =
     [DialFailed ''a.iana-servers.net.:853'' ''connection refused'',
      Log (LogDialFailed ''a.iana-servers.net.:853'' ''connection refused'')] \<and>
   SimpleQuery env_refused (newDefaultDNSClient ''tcp-tls'') query0 world0 =
     Inr (\<lparr>WithErr = True, Err = Some ''connection refused'', Latency = 0\<rparr>,
          \<lparr>dials = 1, trace = [DialFailed ''a.iana-servers.net.:853'' ''connection refused'']\<rparr>) \<and>
   dial_result env_second_refused (dials world0) = None \<and>
   dial_result env_second_refused (Suc (dials world0)) = Some ''connection refused'' \<and>
   Log (LogQueryFailed ''connection refused'') \<in>
     set (trace (SimpleQueryWithNoResponse env_second_refused (newDefaultDNSClient ''tcp-tls'') query0 world0)) \<and>
   dial_result env_timeout (dials world0) = None \<and>
   dial_result env_timeout (Suc (dials world0)) = None \<and>
   snd (exchange_result env_timeout (Suc (dials world0))) = Some ''i/o timeout'' \<and>
   snd (exchange_result env_timeout (dials world0)) = Some ''i/o timeout'' \<and>
   Log (LogQueryFailed ''i/o timeout'') \<in>
     set (trace (SimpleQueryWithNoResponse env_timeout (newDefaultDNSClient ''tcp-tls'') query0 world0)) \<and>
   Net (newDefaultDNSClient ''udp'') \<noteq> TCPTLSProtoName \<and>
   (\<exists>r w'. SimpleQuery env_timeout (newDefaultDNSClient ''udp'') query0 world0 = Inr (r, w') \<and>
      WithErr r \<and> Err r = Some ''i/o timeout'') \<and>
   Net (newDefaultDNSClient ''tcp-tls'') = TCPTLSProtoName \<and>
   SimpleQuery env_timeout (newDefaultDNSClient ''tcp-tls'') query0 world0 = Inl StackOverflow \<and>
   control (run env_refused ''a.iana-servers.net.:53'' params2 sched_next_round) =
     control (run env_ok ''a.iana-servers.net.:53'' params2 sched_next_round) \<and>
   pc (run env_refused ''a.iana-servers.net.:53'' params2 sched_next_round) = KeepAlive \<and>
   names (run env_refused ''a.iana-servers.net.:53'' params2 sched_next_round) = 2"
proof -
  have a: "dial_result env_refused (dials world0) = Some ''connection refused''"
    by (simp add: env_refused_def)
  have b: "dial_result env_second_refused (dials world0) = None"
    "dial_result env_second_refused (Suc (dials world0)) = Some ''connection refused''"
    by (simp_all add: env_second_refused_def world0_def)
  have c: "dial_result env_timeout (dials world0) = None"
    "dial_result env_timeout (Suc (dials world0)) = None"
    "snd (exchange_result env_timeout (Suc (dials world0))) = Some ''i/o timeout''"
    "snd (exchange_result env_timeout (dials world0)) = Some ''i/o timeout''"
    by (simp_all add: env_timeout_def env_ok_def)
  have d: "env_refused = env_ok\<lparr>dial_result := (\<lambda>n. Some ''connection refused''),
                                  exchange_result := exchange_result env_ok\<rparr>"
    by (simp add: env_refused_def)
  have n: "Net (newDefaultDNSClient ''udp'') \<noteq> TCPTLSProtoName"
    "Net (newDefaultDNSClient ''tcp-tls'') = TCPTLSProtoName"
    by (simp_all add: newDefaultDNSClient_def TCPTLSProtoName_def)
  have pc: "pc (run env_refused ''a.iana-servers.net.:53'' params2 sched_next_round) = KeepAlive"
    by code_simp
  have names: "names (run env_refused ''a.iana-servers.net.:53'' params2 sched_next_round) = 2"
    by code_simp
  note r = query_failures_are_swallowed [where e = env_refused and w = world0
      and c = "newDefaultDNSClient ''tcp-tls''" and q = query0]
  note s = query_failures_are_swallowed [where e = env_second_refused and w = world0
      and c = "newDefaultDNSClient ''tcp-tls''" and q = query0]
  note t = query_failures_are_swallowed [where e = env_timeout and w = world0
      and c = "newDefaultDNSClient ''tcp-tls''" and q = query0]
  note t' = query_failures_are_swallowed [where e = env_timeout and w = world0
      and c = "newDefaultDNSClient ''udp''" and q = query0]
  note u = query_failures_are_swallowed [where e = env_ok and w = world0
      and c = "newDefaultDNSClient ''udp''" and q = query0
      and d = "\<lambda>n. Some ''connection refused''" and x = "exchange_result env_ok"
      and ns = "''a.iana-servers.net.:53''" and p = params2 and sched = sched_next_round]
  from a r have 1: "trace (SimpleQueryWithNoResponse env_refused (newDefaultDNSClient ''tcp-tls'') query0 world0) =
     [DialFailed ''a.iana-servers.net.:853'' ''connection refused'',
      Log (LogDialFailed ''a.iana-servers.net.:853'' ''connection refused'')]"
    by (simp add: world0_def query0_def)
  from a r have 2: "SimpleQuery env_refused (newDefaultDNSClient ''tcp-tls'') query0 world0 =
     Inr (\<lparr>WithErr = True, Err = Some ''connection refused'', Latency = 0\<rparr>,
          \<lparr>dials = 1, trace = [DialFailed ''a.iana-servers.net.:853'' ''connection refused'']\<rparr>)"
    by (simp add: world0_def query0_def)
  from b s have 3: "Log (LogQueryFailed ''connection refused'') \<in>
     set (trace (SimpleQueryWithNoResponse env_second_refused (newDefaultDNSClient ''tcp-tls'') query0 world0))"
    by blast
  from c t have 4: "Log (LogQueryFailed ''i/o timeout'') \<in>
     set (trace (SimpleQueryWithNoResponse env_timeout (newDefaultDNSClient ''tcp-tls'') query0 world0))"
    by blast
  from c n t' have 5: "\<exists>r w'. SimpleQuery env_timeout (newDefaultDNSClient ''udp'') query0 world0 = Inr (r, w') \<and>
      WithErr r \<and> Err r = Some ''i/o timeout''"
    by blast
  from c n t have 6: "SimpleQuery env_timeout (newDefaultDNSClient ''tcp-tls'') query0 world0 = Inl StackOverflow"
    by blast
  from u d have 7: "control (run env_refused ''a.iana-servers.net.:53'' params2 sched_next_round) =
     control (run env_ok ''a.iana-servers.net.:53'' params2 sched_next_round)"
    by simp
  from a b c n 1 2 3 4 5 6 7 pc names show ?thesis by simp
qed

section \<open>The period of the heartbeat\<close>

lemma beats_emit: "beats (emit es w) = beats w @ filter is_heartbeat es"
  by (simp add: beats_def emit_def)

lemma beats_dials [simp]: "beats (w\<lparr>dials := n\<rparr>) = beats w"
  by (simp add: beats_def)

lemma beats_Dial: "beats (snd (Dial e c a w)) = beats w"
  by (simp add: Dial_def beats_emit split: option.splits)

lemma beats_UClient: "beats (snd (UClient co h w)) = beats w"
  by (simp add: UClient_def beats_emit)

lemma beats_Close: "beats (Close co w) = beats w"
  by (simp add: Close_def beats_emit)

lemma beats_exchange_on: "beats (snd (exchange_on e m co w)) = beats w"
  by (simp add: exchange_on_def beats_emit)

lemma beats_Exchange: "beats (snd (Exchange e c m a w)) = beats w"
proof (cases "Dial e c a w")
  case (Pair r w1)
  with beats_Dial [of e c a w] have w1: "beats w1 = beats w" by simp
  show ?thesis
  proof (cases r)
    case (Inl err)
    with Pair w1 show ?thesis by (simp add: Exchange_def)
  next
    case (Inr co)
    obtain x w2 where x: "exchange_on e m co w1 = (x, w2)"
      by (cases "exchange_on e m co w1")
    with beats_exchange_on [of e m co w1] have "beats w2 = beats w1" by simp
    with Pair Inr x w1 show ?thesis by (simp add: Exchange_def beats_Close)
  qed
qed

lemma beats_query: "beats (SimpleQueryWithNoResponse e c q w) = beats w"
proof (cases "Dial e c (HostAndPort q) w")
  case (Pair r w1)
  with beats_Dial [of e c "HostAndPort q" w] have w1: "beats w1 = beats w" by simp
  show ?thesis
  proof (cases r)
    case (Inl err)
    with Pair w1 show ?thesis
      by (simp add: SimpleQueryWithNoResponse_def beats_emit)
  next
    case (Inr co)
    obtain co' w2 where u:
      "(if Net c = TCPTLSProtoName then UClient co HelloRandomized w1 else (co, w1)) = (co', w2)"
      by (cases "if Net c = TCPTLSProtoName then UClient co HelloRandomized w1 else (co, w1)")
    with beats_UClient [of co HelloRandomized w1] have w2: "beats w2 = beats w1"
      by (auto split: if_splits)
    obtain rtt err w3 where x:
      "Exchange e c (SetQuestion (Fqdn e (QName q)) (QType q)) (HostAndPort q) w2 = ((rtt, err), w3)"
      by (cases "Exchange e c (SetQuestion (Fqdn e (QName q)) (QType q)) (HostAndPort q) w2") auto
    with beats_Exchange [of e c "SetQuestion (Fqdn e (QName q)) (QType q)" "HostAndPort q" w2]
    have w3: "beats w3 = beats w2" by simp
    from Pair Inr u x w1 w2 w3 show ?thesis
      by (cases err) (simp_all add: SimpleQueryWithNoResponse_def beats_Close beats_emit Let_def)
  qed
qed

lemma heartbeats_query:
  "filter is_heartbeat (trace (SimpleQueryWithNoResponse e c q w)) = filter is_heartbeat (trace w)"
  using beats_query [of e c q w] by (simp add: beats_def)



lemma heartbeat_inv_init: "heartbeat_inv init"
  by (simp add: heartbeat_inv_def init_def heartbeats_def checks_def)

lemma mod_257_step:
  "(n::nat) mod 257 = 256 \<Longrightarrow> Suc n mod 257 = 0 \<and> Suc n div 257 = Suc (n div 257)"
  "(n::nat) mod 257 \<noteq> 256 \<Longrightarrow> Suc n mod 257 = Suc (n mod 257) \<and> Suc n div 257 = n div 257"
  by (simp_all add: mod_Suc div_Suc)

lemma heartbeats_upd [simp]:
  "heartbeats (s\<lparr>pc := a\<rparr>) = heartbeats s"
  "heartbeats (s\<lparr>heap := b\<rparr>) = heartbeats s"
  "heartbeats (s\<lparr>reusableQuery := c\<rparr>) = heartbeats s"
  "heartbeats (s\<lparr>awaitGroup := d\<rparr>) = heartbeats s"
  "heartbeats (s\<lparr>keepAliveCounter := f\<rparr>) = heartbeats s"
  "heartbeats (s\<lparr>names := g\<rparr>) = heartbeats s"
  "heartbeats (s\<lparr>tasks := h\<rparr>) = heartbeats s"
  "heartbeats (s\<lparr>ctx_done := i\<rparr>) = heartbeats s"
  "heartbeats (s\<lparr>ticker_C := j\<rparr>) = heartbeats s"
  by (simp_all add: heartbeats_def)

lemma heartbeats_leave: "heartbeats (leave [] s) = heartbeats s"
  "heartbeats (leave [Log LogCanceled] s) = heartbeats s"
  by (simp_all add: leave_def heartbeats_def emit_def)

lemma heartbeats_panic: "heartbeats (panic_in_loop msg s) = heartbeats s"
  by (simp add: panic_in_loop_def PanicHandler_def heartbeats_def emit_def)



lemma heartbeat_inv_worker:
  assumes f: "loop_inv s" and h: "heartbeat_inv s"
  shows "heartbeat_inv (worker_step e ns p s)"
proof (cases "pc s")
  case InitVars
  with f have "names s = 0" by (simp add: loop_inv_def)
  with InitVars h show ?thesis
    by (simp add: heartbeat_inv_def worker_step_def checks_def PanicHandler_def heartbeats_def emit_def)
next
  case Bootstrap
  with h show ?thesis
    by (simp add: heartbeat_inv_def worker_step_def checks_def split: option.splits)
next
  case GenerateName
  with h show ?thesis
    by (simp add: heartbeat_inv_def worker_step_def checks_def leave_def panic_in_loop_def
        PanicHandler_def heartbeats_def emit_def split: option.splits)
next
  case KeepAlive
  from f KeepAlive obtain q where q: "heap s (reusableQuery s) = Some q" and n: "1 \<le> names s"
    by (auto simp: loop_inv_def)
  from n obtain m where m: "names s = Suc m" by (cases "names s") auto
  from h KeepAlive m have hb: "heartbeats s = m div 257" and c: "keepAliveCounter s = int (m mod 257)"
    by (simp_all add: heartbeat_inv_def checks_def)
  show ?thesis
  proof (cases "keepAliveCounter s = keepAliveReminder")
    case True
    with c have "m mod 257 = 256" by (simp add: keepAliveReminder_def)
    with mod_257_step(1) [of m] True KeepAlive q m hb show ?thesis
      by (simp add: heartbeat_inv_def worker_step_def checks_def heartbeats_def emit_def)
  next
    case False
    with c have "m mod 257 \<noteq> 256" by (simp add: keepAliveReminder_def)
    with mod_257_step(2) [of m] False KeepAlive m hb c show ?thesis
      by (simp add: heartbeat_inv_def worker_step_def checks_def)
  qed
next
  case CheckCancel
  with h show ?thesis
    by (simp add: heartbeat_inv_def worker_step_def checks_def leave_def heartbeats_def emit_def)
next
  case AddGroup
  with h show ?thesis
    by (simp add: heartbeat_inv_def worker_step_def checks_def panic_in_loop_def
        PanicHandler_def heartbeats_def emit_def)
next
  case (Spawn i)
  with h show ?thesis
    by (simp add: heartbeat_inv_def worker_step_def checks_def)
next
  case Await
  with h show ?thesis
    by (simp add: heartbeat_inv_def worker_step_def checks_def)
next
  case Pace
  with h show ?thesis
    by (simp add: heartbeat_inv_def worker_step_def checks_def leave_def heartbeats_def emit_def)
next
  case (Returned r)
  with h show ?thesis
    by (simp add: heartbeat_inv_def worker_step_def checks_def heartbeats_def emit_def
        split: option.splits)
next
  case Exited
  with h show ?thesis
    by (simp add: heartbeat_inv_def worker_step_def)
qed



lemma heartbeat_inv_task:
  assumes "heartbeat_inv s"
  shows "heartbeat_inv (task_step e p k s)"
proof -
  have "heartbeats (task_step e p k s) = heartbeats s"
    by (simp add: task_step_def heartbeats_def heartbeats_query PanicHandler_def emit_def
        split: tpc.splits option.splits)
  moreover have "checks (task_step e p k s) = checks s"
    by (simp add: task_step_def checks_def split: tpc.splits option.splits)
  moreover have "keepAliveCounter (task_step e p k s) = keepAliveCounter s"
    by (simp add: task_step_def split: tpc.splits option.splits)
  ultimately show ?thesis
    using assms by (simp add: heartbeat_inv_def)
qed



lemma heartbeat_inv_step:
  assumes "loop_inv s \<and> heartbeat_inv s"
  shows "loop_inv (step e ns p l s) \<and> heartbeat_inv (step e ns p l s)"
proof
  from assms show "loop_inv (step e ns p l s)"
    by (simp add: loop_inv_step)
  show "heartbeat_inv (step e ns p l s)"
  proof (cases l)
    case Worker
    with assms show ?thesis by (simp add: step_def heartbeat_inv_worker)
  next
    case (Task k)
    with assms show ?thesis by (simp add: step_def heartbeat_inv_task)
  next
    case Cancel
    with assms show ?thesis
      by (simp add: step_def heartbeat_inv_def checks_def)
  next
    case Tick
    with assms show ?thesis
      by (simp add: step_def heartbeat_inv_def checks_def)
  qed
qed

lemma heartbeat_inv_run: "heartbeat_inv (run e ns p sched)"
proof -
  have "loop_inv (exec e ns p sched init) \<and>
        heartbeat_inv (exec e ns p sched init)"
    by (rule exec_invariant [where P = "\<lambda>s. loop_inv s \<and> heartbeat_inv s"])
      (simp_all add: loop_inv_init heartbeat_inv_init heartbeat_inv_step)
  then show ?thesis by (simp add: run_def)
qed

lemma snoc_update_last: "length xs = k \<Longrightarrow> (xs @ [x])[k := y] = xs @ [y]"
  by auto

lemma snoc_nth_last: "length xs = k \<Longrightarrow> (xs @ [x]) ! k = x"
  by auto

lemma one_round:
  assumes b: "between_rounds k s"
    and g: "gen_next e k \<noteq> None"
    and p: "ParallelQueries p = 1"
  shows "between_rounds (Suc k) (exec e ns p (round_sched k) s)"
proof -
  from b have pc: "pc s = GenerateName" and n: "names s = k" and l: "length (tasks s) = k"
    and d: "\<not> ctx_done s" and a: "awaitGroup s = 0"
    by (simp_all add: between_rounds_def)
  from b obtain q where q: "heap s (reusableQuery s) = Some q"
    by (auto simp: between_rounds_def)
  from g obtain name where name: "gen_next e k = Some name" by auto
  define s1 where "s1 = step e ns p Worker s"
  have s1: "pc s1 = KeepAlive" "names s1 = Suc k" "tasks s1 = tasks s" "\<not> ctx_done s1"
    "awaitGroup s1 = 0" "heap s1 (reusableQuery s1) = Some (q\<lparr>QName := name\<rparr>)"
    using pc n d a q name by (simp_all add: s1_def step_def worker_step_def)
  define s2 where "s2 = step e ns p Worker s1"
  have s2: "pc s2 = CheckCancel" "names s2 = Suc k" "tasks s2 = tasks s" "\<not> ctx_done s2"
    "awaitGroup s2 = 0" "heap s2 (reusableQuery s2) = Some (q\<lparr>QName := name\<rparr>)"
    using s1 by (simp_all add: s2_def step_def worker_step_def)
  define s3 where "s3 = step e ns p Worker s2"
  have s3: "pc s3 = AddGroup" "names s3 = Suc k" "tasks s3 = tasks s" "\<not> ctx_done s3"
    "awaitGroup s3 = 0" "heap s3 (reusableQuery s3) = Some (q\<lparr>QName := name\<rparr>)"
    using s2 by (simp_all add: s3_def step_def worker_step_def)
  define s4 where "s4 = step e ns p Worker s3"
  have s4: "pc s4 = Spawn 0" "names s4 = Suc k" "tasks s4 = tasks s" "\<not> ctx_done s4"
    "awaitGroup s4 = 1" "heap s4 (reusableQuery s4) = Some (q\<lparr>QName := name\<rparr>)"
    using s3 p by (simp_all add: s4_def step_def worker_step_def wg_Add_def)
  define s5 where "s5 = step e ns p Worker s4"
  have s5: "pc s5 = Spawn 1" "names s5 = Suc k" "\<not> ctx_done s5"
    "tasks s5 = tasks s @ [\<lparr>t_round = Suc k, t_params = reusableQuery s5, t_pc = TQuery\<rparr>]"
    "awaitGroup s5 = 1" "heap s5 (reusableQuery s5) = Some (q\<lparr>QName := name\<rparr>)"
    using s4 p by (simp_all add: s5_def step_def worker_step_def)
  define s6 where "s6 = step e ns p Worker s5"
  have s6: "pc s6 = Await" "names s6 = Suc k" "\<not> ctx_done s6"
    "tasks s6 = tasks s @ [\<lparr>t_round = Suc k, t_params = reusableQuery s6, t_pc = TQuery\<rparr>]"
    "awaitGroup s6 = 1" "heap s6 (reusableQuery s6) = Some (q\<lparr>QName := name\<rparr>)"
    using s5 p by (simp_all add: s6_def step_def worker_step_def)
  define s7 where "s7 = step e ns p (Task k) s6"
  have s7: "pc s7 = Await" "names s7 = Suc k" "\<not> ctx_done s7"
    "tasks s7 = tasks s @ [\<lparr>t_round = Suc k, t_params = reusableQuery s7, t_pc = TDone\<rparr>]"
    "awaitGroup s7 = 1" "heap s7 (reusableQuery s7) = Some (q\<lparr>QName := name\<rparr>)"
    using s6 l by (simp_all add: s7_def step_def task_step_def snoc_update_last snoc_nth_last)
  define s8 where "s8 = step e ns p (Task k) s7"
  have s8: "pc s8 = Await" "names s8 = Suc k" "\<not> ctx_done s8"
    "length (tasks s8) = Suc k"
    "awaitGroup s8 = 0" "heap s8 (reusableQuery s8) = Some (q\<lparr>QName := name\<rparr>)"
    using s7 l
    by (simp_all add: s8_def step_def task_step_def snoc_update_last snoc_nth_last wg_Add_def)
  define s9 where "s9 = step e ns p Worker s8"
  have s9: "pc s9 = Pace" "names s9 = Suc k" "\<not> ctx_done s9"
    "length (tasks s9) = Suc k"
    "awaitGroup s9 = 0" "heap s9 (reusableQuery s9) = Some (q\<lparr>QName := name\<rparr>)"
    using s8 by (simp_all add: s9_def step_def worker_step_def)
  define s10 where "s10 = step e ns p Tick s9"
  have s10: "pc s10 = Pace" "names s10 = Suc k" "\<not> ctx_done s10"
    "length (tasks s10) = Suc k" "ticker_C s10"
    "awaitGroup s10 = 0" "heap s10 (reusableQuery s10) = Some (q\<lparr>QName := name\<rparr>)"
    using s9 by (simp_all add: s10_def step_def ticker_running_def)
  define s11 where "s11 = step e ns p Worker s10"
  have s11: "pc s11 = GenerateName" "names s11 = Suc k" "\<not> ctx_done s11"
    "length (tasks s11) = Suc k"
    "awaitGroup s11 = 0" "heap s11 (reusableQuery s11) = Some (q\<lparr>QName := name\<rparr>)"
    using s10 by (simp_all add: s11_def step_def worker_step_def)
  have "exec e ns p (round_sched k) s = s11"
    by (simp add: exec_def round_sched_def s11_def s10_def s9_def s8_def s7_def s6_def s5_def
        s4_def s3_def s2_def s1_def)
  with s11 show ?thesis
    by (simp add: between_rounds_def)
qed

lemma rounds_reachable:
  assumes "0 < Delay p" and "ParallelQueries p = 1"
    and "gen_bootstrap e (SeedDomains p) = None" and "\<forall>k. gen_next e k \<noteq> None"
  shows "between_rounds k (run e ns p (rounds_sched k))"
proof (induction k)
  case 0
  from assms show ?case
    by (simp add: between_rounds_def run_def exec_def step_def worker_step_def init_def)
next
  case (Suc k)
  have "run e ns p (rounds_sched (Suc k)) = exec e ns p (round_sched k) (run e ns p (rounds_sched k))"
    by (simp add: run_def exec_append)
  with Suc assms show ?case
    by (simp add: one_round)
qed

text \<open>
  Claim C2. Under every schedule the number of heartbeats in the log is the number
  of keep-alive checks divided by 257, and the counter is that number modulo 257:
  the check that finds the counter at 256 logs and resets it without counting
  itself, so the heartbeat is logged in the rounds 257, 514, ... In the run of 256
  complete rounds no heartbeat has been logged, and in the run of 512 complete
  rounds one.
\<close>

theorem heartbeat_every_257_rounds:
  "heartbeats (run e ns p sched) = checks (run e ns p sched) div 257 \<and>
   keepAliveCounter (run e ns p sched) = int (checks (run e ns p sched) mod 257) \<and>
   pc (run env_ok ns params1 (rounds_sched 256)) = GenerateName \<and>
   names (run env_ok ns params1 (rounds_sched 256)) = 256 \<and>
   heartbeats (run env_ok ns params1 (rounds_sched 256)) = 0 \<and>
   names (run env_ok ns params1 (rounds_sched 512)) = 512 \<and>
   heartbeats (run env_ok ns params1 (rounds_sched 512)) = 1"
proof -
  have inv: "heartbeat_inv (run e ns p sched)" for e ns p sched
    by (rule heartbeat_inv_run)
  have reach: "between_rounds k (run env_ok ns params1 (rounds_sched k))" for k
    by (rule rounds_reachable) (simp_all add: params1_def env_ok_def)
  have count: "heartbeats (run env_ok ns params1 (rounds_sched k)) = k div 257" for k
    using inv [of env_ok ns params1 "rounds_sched k"] reach [of k]
    by (simp add: heartbeat_inv_def between_rounds_def checks_def)
  from inv [of e ns p sched] reach [of 256] reach [of 512] count [of 256] count [of 512]
  show ?thesis
    by (simp add: heartbeat_inv_def between_rounds_def)
qed

section \<open>One shared object for the query name\<close>

text \<open>
  Claim C5, as stated, fails: the worker does not hand a per-round immutable copy
  to its query goroutines. After the worker has received the second name, the
  object that the query goroutine of the first round was given holds the second
  name.
\<close>

theorem per_round_immutable_capture_counterexample:
  "\<not> per_round_immutable_capture env_ok (run env_ok ''a.iana-servers.net.:53'' params1 sched_second_round)"
  by code_simp

lemma task_step_heap: "heap (task_step e p k s) = heap s \<and> names (task_step e p k s) = names s \<and>
    reusableQuery (task_step e p k s) = reusableQuery s \<and> pc (task_step e p k s) = pc s"
  by (simp add: task_step_def split: tpc.splits option.splits)

lemma worker_step_heap:
  "pc s \<noteq> InitVars \<Longrightarrow> pc s \<noteq> GenerateName \<Longrightarrow>
   heap (worker_step e ns p s) = heap s \<and> names (worker_step e ns p s) = names s"
  by (cases "pc s")
    (simp_all add: worker_step_def leave_def panic_in_loop_def split: option.splits)

lemma worker_step_init_names: "pc s = InitVars \<Longrightarrow> names (worker_step e ns p s) = names s"
  by (simp add: worker_step_def)

lemma worker_step_generate:
  assumes pc: "pc s = GenerateName" and f: "loop_inv s"
  shows "(heap (worker_step e ns p s) = heap s \<and> names (worker_step e ns p s) = names s) \<or>
    (names (worker_step e ns p s) = Suc (names s) \<and>
     gen_next e (names s) \<noteq> None \<and>
     map_option QName (heap (worker_step e ns p s) 1) = gen_next e (names s) \<and>
     reusableQuery (worker_step e ns p s) = 1 \<and>
     spawned_in (Suc (names s)) (tasks (worker_step e ns p s)) = 0)"
proof (cases "gen_next e (names s)")
  case None
  with pc show ?thesis by (simp add: worker_step_def leave_def)
next
  case (Some name)
  from pc f obtain q where q: "heap s (reusableQuery s) = Some q" and r: "reusableQuery s = 1"
    by (auto simp: loop_inv_def)
  from f have "\<forall>t \<in> set (tasks s). t_round t \<le> names s"
    by (simp add: loop_inv_def)
  then have "spawned_in (Suc (names s)) (tasks s) = 0"
    by (auto simp: spawned_in_0)
  with pc Some q r show ?thesis
    by (simp add: worker_step_def)
qed

lemma qname_inv_step:
  assumes f: "loop_inv s" and q: "qname_inv e s"
  shows "qname_inv e (step e ns p l s)"
proof (cases l)
  case Worker
  show ?thesis
  proof (cases "pc s = InitVars \<or> pc s = GenerateName")
    case False
    with worker_step_heap [of s e ns p] q Worker show ?thesis
      by (simp add: qname_inv_def step_def)
  next
    case True
    then show ?thesis
    proof
      assume i: "pc s = InitVars"
      with f have "names s = 0" by (simp add: loop_inv_def)
      with i Worker show ?thesis
        by (simp add: qname_inv_def step_def worker_step_init_names)
    next
      assume g: "pc s = GenerateName"
      from worker_step_generate [OF g f, of e ns p] q Worker show ?thesis
        by (auto simp: qname_inv_def step_def)
    qed
  qed
next
  case (Task k)
  with q task_step_heap [of e p k s] show ?thesis
    by (simp add: qname_inv_def step_def)
next
  case Cancel
  with q show ?thesis by (simp add: qname_inv_def step_def)
next
  case Tick
  with q show ?thesis by (simp add: qname_inv_def step_def)
qed

lemma qname_inv_run: "qname_inv e (run e ns p sched)"
proof -
  have "loop_inv (exec e ns p sched init) \<and> qname_inv e (exec e ns p sched init)"
    by (rule exec_invariant [where P = "\<lambda>s. loop_inv s \<and> qname_inv e s"])
      (simp_all add: loop_inv_init loop_inv_step qname_inv_step, simp add: qname_inv_def init_def)
  then show ?thesis by (simp add: run_def)
qed

text \<open>
  Claim C5, amended. Under every schedule: all query goroutines hold the same
  reference, and the \<open>QName\<close> behind the reference of an outstanding query goroutine
  is the name of the current round; a step changes the heap only if it is a step
  of the worker, at the \<open>var\<close> block or at the head of the loop; and a step either
  leaves the round and (past the \<open>var\<close> block) the heap as they are, or it is the
  step of the worker at the head of the loop that begins the next round by writing
  its name into the shared object, before any query goroutine of that round exists.
  When \<open>ParallelQueries\<close> is a number that the 32-bit counter of the wait group can
  hold or that makes \<open>Add\<close> panic (\<open>-2^31 \<le> ParallelQueries < 2^32\<close>), the join
  separates the rounds: an outstanding query goroutine belongs to the current
  round, and no query goroutine is outstanding when the heap changes.
\<close>

theorem shared_qname_discipline:
  "(\<forall>t \<in> set (tasks (run e ns p sched)). \<forall>u \<in> set (tasks (run e ns p sched)).
       t_params t = t_params u) \<and>
   (\<forall>t \<in> set (tasks (run e ns p sched)). t_pc t \<noteq> TExit \<longrightarrow>
       map_option QName (heap (run e ns p sched) (t_params t)) =
         gen_next e (names (run e ns p sched) - 1)) \<and>
   (- (2 ^ 31) \<le> ParallelQueries p \<and> ParallelQueries p < 2 ^ 32 \<longrightarrow>
      (\<forall>t \<in> set (tasks (run e ns p sched)). t_pc t \<noteq> TExit \<longrightarrow>
         t_round t = names (run e ns p sched))) \<and>
   (heap (step e ns p l (run e ns p sched)) \<noteq> heap (run e ns p sched) \<longrightarrow>
       l = Worker \<and>
       (pc (run e ns p sched) = InitVars \<or> pc (run e ns p sched) = GenerateName)) \<and>
   (- (2 ^ 31) \<le> ParallelQueries p \<and> ParallelQueries p < 2 ^ 32 \<and>
    heap (step e ns p l (run e ns p sched)) \<noteq> heap (run e ns p sched) \<longrightarrow>
       live (tasks (run e ns p sched)) = 0) \<and>
   (names (step e ns p l (run e ns p sched)) = names (run e ns p sched) \<and>
      (pc (run e ns p sched) \<noteq> InitVars \<longrightarrow>
         heap (step e ns p l (run e ns p sched)) = heap (run e ns p sched))
    \<or>
    names (step e ns p l (run e ns p sched)) = Suc (names (run e ns p sched)) \<and>
      l = Worker \<and> pc (run e ns p sched) = GenerateName \<and>
      gen_next e (names (run e ns p sched)) \<noteq> None \<and>
      map_option QName (heap (step e ns p l (run e ns p sched))
          (reusableQuery (step e ns p l (run e ns p sched)))) =
        gen_next e (names (run e ns p sched)) \<and>
      spawned_in (Suc (names (run e ns p sched))) (tasks (step e ns p l (run e ns p sched))) = 0)"
proof -
  define s where "s = run e ns p sched"
  have f: "loop_inv s"
    unfolding s_def by (rule loop_inv_run)
  have q: "qname_inv e s"
    unfolding s_def by (rule qname_inv_run)
  have j: "join_inv (ParallelQueries p) s"
    if "- (2 ^ 31) \<le> ParallelQueries p \<and> ParallelQueries p < 2 ^ 32"
    unfolding s_def using that by (simp add: join_inv_run)
  have a: "\<forall>t \<in> set (tasks s). \<forall>u \<in> set (tasks s). t_params t = t_params u"
    using f by (simp add: loop_inv_def)
  have b: "\<forall>t \<in> set (tasks s). t_pc t \<noteq> TExit \<longrightarrow>
       map_option QName (heap s (t_params t)) = gen_next e (names s - 1)"
    using f q by (auto simp: loop_inv_def qname_inv_def)
  have b': "- (2 ^ 31) \<le> ParallelQueries p \<and> ParallelQueries p < 2 ^ 32 \<longrightarrow>
      (\<forall>t \<in> set (tasks s). t_pc t \<noteq> TExit \<longrightarrow> t_round t = names s)"
    using j join_inv_current [of "ParallelQueries p" s] by blast
  have live0: "live (tasks s) = 0"
    if "- (2 ^ 31) \<le> ParallelQueries p \<and> ParallelQueries p < 2 ^ 32"
      and "pc s = InitVars \<or> pc s = GenerateName"
    using j [OF that(1)] that(2) join_inv_quiet [of "ParallelQueries p" s] by blast
  have same: "names (step e ns p l s) = names s \<and> heap (step e ns p l s) = heap s"
    if "l \<noteq> Worker \<or> (pc s \<noteq> InitVars \<and> pc s \<noteq> GenerateName)"
  proof (cases l)
    case Worker
    with that worker_step_heap [of s e ns p] show ?thesis by (simp add: step_def)
  next
    case (Task k)
    with task_step_heap [of e p k s] show ?thesis by (simp add: step_def)
  next
    case Cancel
    then show ?thesis by (simp add: step_def)
  next
    case Tick
    then show ?thesis by (simp add: step_def)
  qed
  have c: "heap (step e ns p l s) \<noteq> heap s \<longrightarrow>
       l = Worker \<and> (pc s = InitVars \<or> pc s = GenerateName)"
    using same by blast
  have c': "- (2 ^ 31) \<le> ParallelQueries p \<and> ParallelQueries p < 2 ^ 32 \<and>
      heap (step e ns p l s) \<noteq> heap s \<longrightarrow> live (tasks s) = 0"
    using same live0 by blast
  have d: "names (step e ns p l s) = names s \<and>
      (pc s \<noteq> InitVars \<longrightarrow> heap (step e ns p l s) = heap s)
    \<or>
    names (step e ns p l s) = Suc (names s) \<and>
      l = Worker \<and> pc s = GenerateName \<and> gen_next e (names s) \<noteq> None \<and>
      map_option QName (heap (step e ns p l s) (reusableQuery (step e ns p l s))) =
        gen_next e (names s) \<and>
      spawned_in (Suc (names s)) (tasks (step e ns p l s)) = 0"
  proof (cases "l = Worker \<and> (pc s = InitVars \<or> pc s = GenerateName)")
    case False
    with same show ?thesis by blast
  next
    case True
    then have l: "l = Worker" by simp
    from True have "pc s = InitVars \<or> pc s = GenerateName" by simp
    then show ?thesis
    proof
      assume "pc s = InitVars"
      with l show ?thesis by (simp add: step_def worker_step_init_names)
    next
      assume g: "pc s = GenerateName"
      from worker_step_generate [OF g f, of e ns p] l g show ?thesis
        by (auto simp: step_def)
    qed
  qed
  from a b b' c c' d show ?thesis
    unfolding s_def by blast
qed

theorem shared_qname_discipline_witness:
  "- (2 ^ 31) \<le> ParallelQueries params2 \<and> ParallelQueries params2 < 2 ^ 32 \<and>
   tasks (run env_ok ''a.iana-servers.net.:53'' params2 sched_join) ! 1
     \<in> set (tasks (run env_ok ''a.iana-servers.net.:53'' params2 sched_join)) \<and>
   t_pc (tasks (run env_ok ''a.iana-servers.net.:53'' params2 sched_join) ! 1) \<noteq> TExit \<and>
   t_params (tasks (run env_ok ''a.iana-servers.net.:53'' params2 sched_join) ! 1) =
     t_params (tasks (run env_ok ''a.iana-servers.net.:53'' params2 sched_join) ! 0) \<and>
   t_round (tasks (run env_ok ''a.iana-servers.net.:53'' params2 sched_join) ! 1) =
     names (run env_ok ''a.iana-servers.net.:53'' params2 sched_join) \<and>
   map_option QName (heap (run env_ok ''a.iana-servers.net.:53'' params2 sched_join)
      (t_params (tasks (run env_ok ''a.iana-servers.net.:53'' params2 sched_join) ! 1))) =
     Some ''a.example.com'' \<and>
   heap (step env_ok ''a.iana-servers.net.:53'' params2 Worker
      (run env_ok ''a.iana-servers.net.:53'' params2 [Worker, Worker])) \<noteq>
     heap (run env_ok ''a.iana-servers.net.:53'' params2 [Worker, Worker]) \<and>
   live (tasks (run env_ok ''a.iana-servers.net.:53'' params2 [Worker, Worker])) = 0 \<and>
   names (step env_ok ''a.iana-servers.net.:53'' params2 Worker
      (run env_ok ''a.iana-servers.net.:53'' params2 [Worker, Worker])) = 1 \<and>
   spawned_in 1 (tasks (step env_ok ''a.iana-servers.net.:53'' params2 Worker
      (run env_ok ''a.iana-servers.net.:53'' params2 [Worker, Worker]))) = 0"
proof -
  let ?ns = "''a.iana-servers.net.:53''"
  let ?s = "run env_ok ?ns params2 sched_join"
  let ?t = "run env_ok ?ns params2 [Worker, Worker]"
  have N: "- (2 ^ 31) \<le> ParallelQueries params2 \<and> ParallelQueries params2 < 2 ^ 32"
    by (simp add: params2_def)
  have len: "length (tasks ?s) = 2" by code_simp
  then have m0: "tasks ?s ! 0 \<in> set (tasks ?s)" and m1: "tasks ?s ! 1 \<in> set (tasks ?s)"
    by simp_all
  have live: "t_pc (tasks ?s ! 1) \<noteq> TExit" by code_simp
  have names: "names ?s = 1" by code_simp
  have gen: "gen_next env_ok 0 = Some ''a.example.com''" by (simp add: env_ok_def)
  have "heap (step env_ok ?ns params2 Worker ?t) 1 \<noteq> heap ?t 1" by code_simp
  then have wr: "heap (step env_ok ?ns params2 Worker ?t) \<noteq> heap ?t" by metis
  have names0: "names ?t = 0" by code_simp
  note i1 = shared_qname_discipline [where e = env_ok and ns = ?ns and p = params2
      and sched = sched_join and l = "Task 1"]
  note i2 = shared_qname_discipline [where e = env_ok and ns = ?ns and p = params2
      and sched = "[Worker, Worker]" and l = Worker]
  from i1 m0 m1 have 1: "t_params (tasks ?s ! 1) = t_params (tasks ?s ! 0)"
    by blast
  from i1 m1 live have "map_option QName (heap ?s (t_params (tasks ?s ! 1))) =
      gen_next env_ok (names ?s - 1)"
    by blast
  with names gen have 2: "map_option QName (heap ?s (t_params (tasks ?s ! 1))) = Some ''a.example.com''"
    by simp
  from i1 N m1 live have 5: "t_round (tasks ?s ! 1) = names ?s"
    by blast
  from i2 N wr have 3: "live (tasks ?t) = 0"
    by blast
  have pct: "pc ?t \<noteq> InitVars" by code_simp
  from i2 wr pct have "names (step env_ok ?ns params2 Worker ?t) = Suc (names ?t) \<and>
     spawned_in (Suc (names ?t)) (tasks (step env_ok ?ns params2 Worker ?t)) = 0"
    by blast
  with names0 have 4: "names (step env_ok ?ns params2 Worker ?t) = 1 \<and>
     spawned_in 1 (tasks (step env_ok ?ns params2 Worker ?t)) = 0"
    by simp
  from N m1 live 1 2 5 wr 3 4 show ?thesis by simp
qed

section \<open>Cooperative cancellation\<close>

lemma after_cancel_worker:
  assumes "after_cancel n m s"
  shows "after_cancel n m (worker_step e ns p s)"
proof (cases "pc s")
  case (Spawn i)
  with assms show ?thesis
    by (auto simp: after_cancel_def worker_step_def late_def nth_append)
qed (use assms in \<open>auto simp: after_cancel_def worker_step_def late_def leave_def panic_in_loop_def
      split: option.splits\<close>)

lemma after_cancel_task:
  assumes "after_cancel n m s"
  shows "after_cancel n m (task_step e p k s)"
  using assms
  by (auto simp: after_cancel_def task_step_def nth_list_update split: tpc.splits option.splits)

lemma after_cancel_step:
  assumes "after_cancel n m s"
  shows "after_cancel n m (step e ns p l s)"
proof (cases l)
  case Worker
  with assms show ?thesis by (simp add: step_def after_cancel_worker)
next
  case (Task k)
  with assms show ?thesis by (simp add: step_def after_cancel_task)
next
  case Cancel
  with assms show ?thesis by (simp add: step_def after_cancel_def)
next
  case Tick
  with assms show ?thesis by (simp add: step_def after_cancel_def)
qed

lemma after_cancel_exec:
  assumes "ctx_done s"
  shows "after_cancel (names s) (length (tasks s)) (exec e ns p sched s)"
  by (rule exec_invariant [where P = "after_cancel (names s) (length (tasks s))"])
    (simp_all add: after_cancel_step, simp add: after_cancel_def assms)

lemma ctx_done_worker:
  "pc s \<noteq> CheckCancel \<Longrightarrow> pc s \<noteq> Pace \<Longrightarrow>
   worker_step e ns p (s\<lparr>ctx_done := b\<rparr>) = (worker_step e ns p s)\<lparr>ctx_done := b\<rparr>"
  by (cases "pc s")
    (simp_all add: worker_step_def leave_def panic_in_loop_def split: option.splits)

lemma ctx_done_task:
  "task_step e p k (s\<lparr>ctx_done := b\<rparr>) = (task_step e p k s)\<lparr>ctx_done := b\<rparr>"
  by (simp add: task_step_def split: tpc.splits option.splits)

lemma check_cancel_observes:
  "pc s = CheckCancel \<Longrightarrow>
   pc (worker_step e ns p s) = (if ctx_done s then Returned None else AddGroup)"
  by (simp add: worker_step_def leave_def)

lemma pace_observes:
  "pc s = Pace \<Longrightarrow> ctx_done s \<Longrightarrow>
   pc (worker_step e ns p s) =
     (if ticker_C s \<and> select_tick e (names s) then GenerateName else Returned None)"
  by (simp add: worker_step_def leave_def)

lemma todo_worker:
  assumes c: "ctx_done s" and e: "pc s \<noteq> Exited"
    and a: "\<not> (pc s = Await \<and> awaitGroup s \<noteq> 0)"
  shows "todo (ParallelQueries p) (worker_step e ns p s) < todo (ParallelQueries p) s"
proof (cases "pc s")
  case (Spawn i)
  then show ?thesis
    by (auto simp: todo_def worker_step_def nat_diff_distrib)
next
  case Await
  with a show ?thesis by (simp add: todo_def worker_step_def)
next
  case Pace
  with c show ?thesis by (simp add: todo_def worker_step_def leave_def)
next
  case CheckCancel
  with c show ?thesis by (simp add: todo_def worker_step_def leave_def)
next
  case Exited
  with e show ?thesis by simp
qed (simp_all add: todo_def worker_step_def leave_def panic_in_loop_def split: option.splits)

lemma worker_blocked:
  "pc s = Exited \<or> pc s = Await \<and> awaitGroup s \<noteq> 0 \<Longrightarrow> worker_step e ns p s = s"
  by (auto simp: worker_step_def)

lemma task_blocked:
  "\<not> (k < length (tasks s) \<and> t_pc (tasks s ! k) \<noteq> TExit) \<Longrightarrow> task_step e p k s = s"
  by (auto simp: task_step_def)

lemma moves_decrease:
  assumes c: "ctx_done s" and l: "l \<noteq> Tick"
  shows "step e ns p l s = s \<or>
         todo (ParallelQueries p) (step e ns p l s) < todo (ParallelQueries p) s"
proof (cases l)
  case Worker
  then show ?thesis
    using worker_blocked [of s e ns p] todo_worker [OF c, of p e ns]
    by (auto simp: step_def)
next
  case (Task k)
  then show ?thesis
    using task_blocked [of k s e p] todo_task [of k s "ParallelQueries p" e p]
    by (auto simp: step_def)
next
  case Cancel
  with c show ?thesis by (simp add: step_def)
next
  case Tick
  with l show ?thesis by simp
qed

lemma progress:
  assumes f: "join_inv (ParallelQueries p) s" and c: "ctx_done s" and e: "pc s \<noteq> Exited"
  shows "\<exists>l. todo (ParallelQueries p) (step e' ns p l s) < todo (ParallelQueries p) s"
proof (cases "pc s = Await \<and> awaitGroup s \<noteq> 0")
  case False
  with todo_worker [OF c e, of p e' ns] have
    "todo (ParallelQueries p) (step e' ns p Worker s) < todo (ParallelQueries p) s"
    by (simp add: step_def)
  then show ?thesis ..
next
  case True
  with f have "live (tasks s) \<noteq> 0"
    by (simp add: join_inv_await)
  then obtain t where "t \<in> set (tasks s)" "t_pc t \<noteq> TExit"
    by (auto simp: live_0)
  then obtain k where "k < length (tasks s)" "t_pc (tasks s ! k) \<noteq> TExit"
    by (auto simp: in_set_conv_nth)
  with todo_task [of k s "ParallelQueries p" e' p] have
    "todo (ParallelQueries p) (step e' ns p (Task k) s) < todo (ParallelQueries p) s"
    by (simp add: step_def)
  then show ?thesis ..
qed

lemma ctx_done_step: "ctx_done s \<Longrightarrow> ctx_done (step e ns p l s)"
  by (cases l)
    (simp_all add: step_def worker_step_def task_step_def leave_def panic_in_loop_def
      split: pc.splits tpc.splits option.splits)

lemma terminates:
  assumes "join_inv (ParallelQueries p) s" and "ctx_done s"
  shows "\<exists>sched. pc (exec e ns p sched s) = Exited"
  using assms
proof (induction "todo (ParallelQueries p) s" arbitrary: s rule: less_induct)
  case less
  show ?case
  proof (cases "pc s = Exited")
    case True
    then have "pc (exec e ns p [] s) = Exited" by (simp add: exec_def)
    then show ?thesis ..
  next
    case False
    from progress [OF less.prems(1) less.prems(2) False, of e ns]
    obtain l where l: "todo (ParallelQueries p) (step e ns p l s) < todo (ParallelQueries p) s"
      by blast
    have "join_inv (ParallelQueries p) (step e ns p l s)"
      using less.prems(1) by (rule join_inv_step)
    moreover have "ctx_done (step e ns p l s)"
      using less.prems(2) by (rule ctx_done_step)
    ultimately obtain sched where "pc (exec e ns p sched (step e ns p l s)) = Exited"
      using less.hyps [OF l] by blast
    then have "pc (exec e ns p (l # sched) s) = Exited"
      by (simp add: exec_def)
    then show ?thesis ..
  qed
qed

text \<open>
  Claim C7. The worker reads the context at the first \<open>select\<close> and at the second and
  nowhere else, and a query goroutine never reads it: elsewhere a step commutes
  with any change of the context. At the first \<open>select\<close> a done context ends the
  loop; at the second it ends the loop unless a tick is waiting and \<open>select\<close>
  takes it. Once the context is done in a reachable state: every query goroutine
  spawned later belongs to the round of that state, and at most one more name is
  received; every move of the worker or of a query goroutine decreases \<open>todo\<close>.
  When \<open>ParallelQueries\<close> is a number that the 32-bit counter of the wait group can
  hold or that makes \<open>Add\<close> panic (\<open>-2^31 \<le> ParallelQueries < 2^32\<close>), the join works:
  once the context is done, some schedule leads the worker to its end, and a worker
  that has returned has no outstanding query goroutine, so the queries in flight
  ran to their end.
\<close>

theorem cooperative_cancellation:
  "(pc s \<noteq> CheckCancel \<and> pc s \<noteq> Pace \<longrightarrow>
      step e ns p Worker (s\<lparr>ctx_done := b\<rparr>) = (step e ns p Worker s)\<lparr>ctx_done := b\<rparr>) \<and>
   step e ns p (Task k) (s\<lparr>ctx_done := b\<rparr>) = (step e ns p (Task k) s)\<lparr>ctx_done := b\<rparr> \<and>
   (pc s = CheckCancel \<longrightarrow>
      pc (step e ns p Worker s) = (if ctx_done s then Returned None else AddGroup)) \<and>
   (pc s = Pace \<and> ctx_done s \<longrightarrow>
      pc (step e ns p Worker s) =
        (if ticker_C s \<and> select_tick e (names s) then GenerateName else Returned None)) \<and>
   (ctx_done (run e ns p sched) \<longrightarrow>
      (\<forall>i. length (tasks (run e ns p sched)) \<le> i \<and>
           i < length (tasks (run e ns p (sched @ cont))) \<longrightarrow>
           t_round (tasks (run e ns p (sched @ cont)) ! i) = names (run e ns p sched)) \<and>
      names (run e ns p (sched @ cont)) \<le> Suc (names (run e ns p sched)) \<and>
      (l \<noteq> Tick \<longrightarrow>
         step e ns p l (run e ns p sched) = run e ns p sched \<or>
         todo (ParallelQueries p) (step e ns p l (run e ns p sched))
           < todo (ParallelQueries p) (run e ns p sched)) \<and>
      (- (2 ^ 31) \<le> ParallelQueries p \<and> ParallelQueries p < 2 ^ 32 \<longrightarrow>
         (\<exists>rest. pc (run e ns p (sched @ rest)) = Exited))) \<and>
   (- (2 ^ 31) \<le> ParallelQueries p \<and> ParallelQueries p < 2 ^ 32 \<and>
    ((\<exists>r. pc (run e ns p sched) = Returned r) \<or> pc (run e ns p sched) = Exited) \<longrightarrow>
      live (tasks (run e ns p sched)) = 0)"
proof -
  have 1: "pc s \<noteq> CheckCancel \<and> pc s \<noteq> Pace \<longrightarrow>
      step e ns p Worker (s\<lparr>ctx_done := b\<rparr>) = (step e ns p Worker s)\<lparr>ctx_done := b\<rparr>"
    by (simp add: step_def ctx_done_worker)
  have 2: "step e ns p (Task k) (s\<lparr>ctx_done := b\<rparr>) = (step e ns p (Task k) s)\<lparr>ctx_done := b\<rparr>"
    by (simp add: step_def ctx_done_task)
  have 3: "pc s = CheckCancel \<longrightarrow>
      pc (step e ns p Worker s) = (if ctx_done s then Returned None else AddGroup)"
    by (simp add: step_def check_cancel_observes)
  have 4: "pc s = Pace \<and> ctx_done s \<longrightarrow>
      pc (step e ns p Worker s) =
        (if ticker_C s \<and> select_tick e (names s) then GenerateName else Returned None)"
    by (simp add: step_def pace_observes)
  define s0 where "s0 = run e ns p sched"
  have f: "join_inv (ParallelQueries p) s0"
    if "- (2 ^ 31) \<le> ParallelQueries p \<and> ParallelQueries p < 2 ^ 32"
    unfolding s0_def using that by (simp add: join_inv_run)
  have app: "run e ns p (sched @ xs) = exec e ns p xs s0" for xs
    by (simp add: run_def s0_def exec_append)
  have 5: "ctx_done s0 \<longrightarrow>
      (\<forall>i. length (tasks s0) \<le> i \<and> i < length (tasks (exec e ns p cont s0)) \<longrightarrow>
           t_round (tasks (exec e ns p cont s0) ! i) = names s0) \<and>
      names (exec e ns p cont s0) \<le> Suc (names s0) \<and>
      (l \<noteq> Tick \<longrightarrow>
         step e ns p l s0 = s0 \<or>
         todo (ParallelQueries p) (step e ns p l s0) < todo (ParallelQueries p) s0) \<and>
      (- (2 ^ 31) \<le> ParallelQueries p \<and> ParallelQueries p < 2 ^ 32 \<longrightarrow>
         (\<exists>rest. pc (exec e ns p rest s0) = Exited))"
  proof (intro impI conjI)
    assume c: "ctx_done s0"
    note ac = after_cancel_exec [OF c, of e ns p cont]
    from ac show "\<forall>i. length (tasks s0) \<le> i \<and> i < length (tasks (exec e ns p cont s0)) \<longrightarrow>
           t_round (tasks (exec e ns p cont s0) ! i) = names s0"
      by (simp add: after_cancel_def)
    from ac show "names (exec e ns p cont s0) \<le> Suc (names s0)"
      by (auto simp: after_cancel_def)
  next
    assume c: "ctx_done s0" and "l \<noteq> Tick"
    then show "step e ns p l s0 = s0 \<or>
         todo (ParallelQueries p) (step e ns p l s0) < todo (ParallelQueries p) s0"
      by (rule moves_decrease)
  next
    assume c: "ctx_done s0"
      and N: "- (2 ^ 31) \<le> ParallelQueries p \<and> ParallelQueries p < 2 ^ 32"
    from f [OF N] c show "\<exists>rest. pc (exec e ns p rest s0) = Exited"
      by (rule terminates)
  qed
  have 6: "- (2 ^ 31) \<le> ParallelQueries p \<and> ParallelQueries p < 2 ^ 32 \<and>
      ((\<exists>r. pc s0 = Returned r) \<or> pc s0 = Exited) \<longrightarrow> live (tasks s0) = 0"
    using f join_inv_quiet [of "ParallelQueries p" s0] by blast
  from 1 2 3 4 5 6 show ?thesis
    unfolding app s0_def [symmetric] by blast
qed

theorem cooperative_cancellation_witness:
  "- (2 ^ 31) \<le> ParallelQueries params2 \<and> ParallelQueries params2 < 2 ^ 32 \<and>
   pc init \<noteq> CheckCancel \<and> pc init \<noteq> Pace \<and>
   step env_ok ''a.iana-servers.net.:53'' params2 Worker (init\<lparr>ctx_done := True\<rparr>) =
     (step env_ok ''a.iana-servers.net.:53'' params2 Worker init)\<lparr>ctx_done := True\<rparr> \<and>
   pc (run env_ok ''a.iana-servers.net.:53'' params2 [Worker, Worker, Worker, Worker, Cancel])
     = CheckCancel \<and>
   pc (step env_ok ''a.iana-servers.net.:53'' params2 Worker
        (run env_ok ''a.iana-servers.net.:53'' params2 [Worker, Worker, Worker, Worker, Cancel]))
     = Returned None \<and>
   pc (run env_ok ''a.iana-servers.net.:53'' params2 (sched_cancel @ sched_drain)) = Pace \<and>
   ctx_done (run env_ok ''a.iana-servers.net.:53'' params2 (sched_cancel @ sched_drain)) \<and>
   pc (step env_ok ''a.iana-servers.net.:53'' params2 Worker
        (run env_ok ''a.iana-servers.net.:53'' params2 (sched_cancel @ sched_drain)))
     = Returned None \<and>
   ctx_done (run env_ok ''a.iana-servers.net.:53'' params2 sched_cancel) \<and>
   length (tasks (run env_ok ''a.iana-servers.net.:53'' params2 sched_cancel)) = 0 \<and>
   length (tasks (run env_ok ''a.iana-servers.net.:53'' params2 (sched_cancel @ sched_drain))) = 2 \<and>
   t_round (tasks (run env_ok ''a.iana-servers.net.:53'' params2 (sched_cancel @ sched_drain)) ! 1) = 1 \<and>
   (\<exists>rest. pc (run env_ok ''a.iana-servers.net.:53'' params2 (sched_cancel @ rest)) = Exited) \<and>
   pc (run env_ok ''a.iana-servers.net.:53'' params2 (sched_cancel @ sched_drain @ [Worker, Worker]))
     = Exited \<and>
   live (tasks (run env_ok ''a.iana-servers.net.:53'' params2
     (sched_cancel @ sched_drain @ [Worker, Worker]))) = 0"
proof -
  let ?ns = "''a.iana-servers.net.:53''"
  have N: "- (2 ^ 31) \<le> ParallelQueries params2 \<and> ParallelQueries params2 < 2 ^ 32"
    by (simp add: params2_def)
  have a: "pc init \<noteq> CheckCancel \<and> pc init \<noteq> Pace"
    by (simp add: init_def)
  have b: "pc (run env_ok ?ns params2 [Worker, Worker, Worker, Worker, Cancel]) = CheckCancel"
    "ctx_done (run env_ok ?ns params2 [Worker, Worker, Worker, Worker, Cancel])"
    by code_simp+
  have c: "pc (run env_ok ?ns params2 (sched_cancel @ sched_drain)) = Pace"
    "ctx_done (run env_ok ?ns params2 (sched_cancel @ sched_drain))"
    "\<not> ticker_C (run env_ok ?ns params2 (sched_cancel @ sched_drain))"
    by code_simp+
  have d: "ctx_done (run env_ok ?ns params2 sched_cancel)"
    "length (tasks (run env_ok ?ns params2 sched_cancel)) = 0"
    "length (tasks (run env_ok ?ns params2 (sched_cancel @ sched_drain))) = 2"
    "names (run env_ok ?ns params2 sched_cancel) = 1"
    by code_simp+
  have e: "pc (run env_ok ?ns params2 (sched_cancel @ sched_drain @ [Worker, Worker])) = Exited"
    by code_simp
  note i1 = cooperative_cancellation [where s = init and e = env_ok and ns = ?ns and p = params2
      and b = True and sched = "[]" and cont = "[]" and l = Worker and k = 0]
  note i2 = cooperative_cancellation [where s = "run env_ok ?ns params2 [Worker, Worker, Worker, Worker, Cancel]"
      and e = env_ok and ns = ?ns and p = params2
      and b = True and sched = "[]" and cont = "[]" and l = Worker and k = 0]
  note i3 = cooperative_cancellation [where s = "run env_ok ?ns params2 (sched_cancel @ sched_drain)"
      and e = env_ok and ns = ?ns and p = params2
      and b = True and sched = sched_cancel and cont = sched_drain and l = Worker and k = 0]
  note i4 = cooperative_cancellation [where s = init
      and e = env_ok and ns = ?ns and p = params2
      and b = True and sched = "sched_cancel @ sched_drain @ [Worker, Worker]" and cont = "[]"
      and l = Worker and k = 0]
  from a i1 have 1: "step env_ok ?ns params2 Worker (init\<lparr>ctx_done := True\<rparr>) =
     (step env_ok ?ns params2 Worker init)\<lparr>ctx_done := True\<rparr>"
    by blast
  from b i2 have 2: "pc (step env_ok ?ns params2 Worker
        (run env_ok ?ns params2 [Worker, Worker, Worker, Worker, Cancel])) = Returned None"
    by simp
  from c i3 have 3: "pc (step env_ok ?ns params2 Worker
        (run env_ok ?ns params2 (sched_cancel @ sched_drain))) = Returned None"
    by simp
  from d N i3 have 4:
    "t_round (tasks (run env_ok ?ns params2 (sched_cancel @ sched_drain)) ! 1) = 1"
    "\<exists>rest. pc (run env_ok ?ns params2 (sched_cancel @ rest)) = Exited"
    by simp_all
  from e N i4 have 5: "live (tasks (run env_ok ?ns params2
     (sched_cancel @ sched_drain @ [Worker, Worker]))) = 0"
    by simp
  from N a b c d e 1 2 3 4 5 show ?thesis by simp
qed

end
